theory Spec2Isabelle
  imports Complex_Main "HOL-Library.Sublist"
begin

section \<open>Strings and POSIX paths\<close>

text \<open>
  The script \<^verbatim>\<open>tif2webp.py\<close> works on path strings with Python's \<^verbatim>\<open>str\<close> methods
  and \<^verbatim>\<open>os.path\<close> (here: \<^verbatim>\<open>posixpath\<close>, separator \<^verbatim>\<open>/\<close>). Strings are lists of
  8-bit characters; \<^verbatim>\<open>str.lower\<close> is modelled on the ASCII letters, which is all the
  extension tests of the script depend on.
\<close>

definition lower_char :: "char \<Rightarrow> char" where
  "lower_char c =
     (case map_of (zip ''ABCDEFGHIJKLMNOPQRSTUVWXYZ'' ''abcdefghijklmnopqrstuvwxyz'') c of
        None \<Rightarrow> c
      | Some d \<Rightarrow> d)"

definition lower :: "string \<Rightarrow> string" where
  "lower s = map lower_char s"

text \<open>\<^verbatim>\<open>s.endswith(suf)\<close>, and \<^verbatim>\<open>s.endswith((suf1, suf2, ...))\<close> for a tuple.\<close>

definition endswith :: "string \<Rightarrow> string \<Rightarrow> bool" where
  "endswith s suf = suffix suf s"

definition endswith_any :: "string \<Rightarrow> string list \<Rightarrow> bool" where
  "endswith_any s sufs = list_ex (endswith s) sufs"

text \<open>\<^verbatim>\<open>s.startswith('/')\<close>.\<close>

definition starts_with_sep :: "string \<Rightarrow> bool" where
  "starts_with_sep s = (case s of [] \<Rightarrow> False | c # _ \<Rightarrow> c = CHR ''/'')"

definition ends_with_sep :: "string \<Rightarrow> bool" where
  "ends_with_sep s = (case rev s of [] \<Rightarrow> False | c # _ \<Rightarrow> c = CHR ''/'')"

text \<open>
  \<^verbatim>\<open>posixpath.join(a, b)\<close> for two components: an absolute \<^verbatim>\<open>b\<close> replaces \<^verbatim>\<open>a\<close>;
  otherwise a separator is inserted unless \<^verbatim>\<open>a\<close> is empty or already ends with one.
\<close>

definition join :: "string \<Rightarrow> string \<Rightarrow> string" where
  "join a b =
     (if starts_with_sep b then b
      else if a = [] \<or> ends_with_sep a then a @ b
      else a @ ''/'' @ b)"

text \<open>\<^verbatim>\<open>posixpath.basename(p)\<close>: everything after the last separator.\<close>

definition basename :: "string \<Rightarrow> string" where
  "basename p = rev (takeWhile (\<lambda>c. c \<noteq> CHR ''/'') (rev p))"

text \<open>
  \<^verbatim>\<open>posixpath.dirname(p)\<close>: the head up to and including the last separator, with
  its trailing separators removed unless it consists of separators only.
\<close>

definition dirname :: "string \<Rightarrow> string" where
  "dirname p =
     (let head = rev (dropWhile (\<lambda>c. c \<noteq> CHR ''/'') (rev p)) in
      if filter (\<lambda>c. c \<noteq> CHR ''/'') head = [] then head
      else rev (dropWhile (\<lambda>c. c = CHR ''/'') (rev head)))"

text \<open>
  \<^verbatim>\<open>posixpath.splitext(p)\<close>: the extension starts at the last dot of the last path
  component, provided some character other than a dot precedes it in that component
  (leading dots do not start an extension); otherwise the extension is empty.
\<close>

definition splitext :: "string \<Rightarrow> string \<times> string" where
  "splitext p =
     (let tl = basename p;
          ext = rev (takeWhile (\<lambda>c. c \<noteq> CHR ''.'') (rev tl));
          stem = take (length tl - length ext - 1) tl
      in if CHR ''.'' \<in> set tl \<and> filter (\<lambda>c. c \<noteq> CHR ''.'') stem \<noteq> []
         then (take (length p - length ext - 1) p, CHR ''.'' # ext)
         else (p, []))"

text \<open>
  \<^verbatim>\<open>str.strip()\<close>: removes leading and trailing whitespace, that is the
  characters for which \<^verbatim>\<open>str.isspace\<close> holds. Among the code points below 256
  these are 9-13, 28-32, U+0085 and U+00A0.
\<close>

definition is_space :: "char \<Rightarrow> bool" where
  "is_space c =
     (c \<in> set [CHR 0x09, CHR 0x0A, CHR 0x0B, CHR 0x0C, CHR 0x0D,
                CHR 0x1C, CHR 0x1D, CHR 0x1E, CHR 0x1F, CHR '' '',
                CHR 0x85, CHR 0xA0])"

definition strip :: "string \<Rightarrow> string" where
  "strip s = rev (dropWhile is_space (rev (dropWhile is_space s)))"

section \<open>The file system and the external encoder\<close>

text \<open>
  The store maps a path string, as the script writes it, to a regular file (with its
  size in bytes) or to a directory (with the names of its children in the order in
  which \<^verbatim>\<open>os.scandir\<close> yields them). Paths are keys as they stand: no
  normalisation, no symbolic links, no permissions. Every call the script makes to
  the operating system is recorded in a trace.
\<close>

datatype node = File nat | Dir "string list"

type_synonym filesystem = "string \<Rightarrow> node option"

record dirent =
  name :: string
  path :: string

datatype event =
    MakeDirs string
  | ScanDir string
  | GetSize string
  | RunEncoder string string

record world =
  files :: filesystem
  trace :: "event list"

datatype error =
    FileNotFoundError string
  | NotADirectoryError string
  | FileExistsError string
  | ZeroDivisionError

text \<open>Python's \<^verbatim>\<open>a / b\<close>: it raises when the divisor is zero.\<close>

definition true_div :: "real \<Rightarrow> real \<Rightarrow> error + real" where
  "true_div a b = (if b = 0 then Inl ZeroDivisionError else Inr (a / b))"

definition isdir :: "filesystem \<Rightarrow> string \<Rightarrow> bool" where
  "isdir fs p = (case fs p of Some (Dir _) \<Rightarrow> True | _ \<Rightarrow> False)"

definition isfile :: "filesystem \<Rightarrow> string \<Rightarrow> bool" where
  "isfile fs p = (case fs p of Some (File _) \<Rightarrow> True | _ \<Rightarrow> False)"

definition path_exists :: "filesystem \<Rightarrow> string \<Rightarrow> bool" where
  "path_exists fs p = (case fs p of Some _ \<Rightarrow> True | None \<Rightarrow> False)"

text \<open>\<^verbatim>\<open>DirEntry.is_file()\<close> and \<^verbatim>\<open>DirEntry.is_dir()\<close>.\<close>

definition is_file :: "filesystem \<Rightarrow> dirent \<Rightarrow> bool" where
  "is_file fs e = isfile fs (path e)"

definition is_dir :: "filesystem \<Rightarrow> dirent \<Rightarrow> bool" where
  "is_dir fs e = isdir fs (path e)"

definition record_event :: "event \<Rightarrow> world \<Rightarrow> world" where
  "record_event ev w = w\<lparr>trace := trace w @ [ev]\<rparr>"

text \<open>
  \<^verbatim>\<open>os.scandir(d)\<close>, read to the end: one entry per child, its path being
  \<^verbatim>\<open>os.path.join(d, name)\<close>. It raises when \<^verbatim>\<open>d\<close> is not a directory.
\<close>

definition scandir :: "world \<Rightarrow> string \<Rightarrow> (error + dirent list) \<times> world" where
  "scandir w d =
     (case files w d of
        Some (Dir ns) \<Rightarrow>
          (Inr (map (\<lambda>n. \<lparr>name = n, path = join d n\<rparr>) ns), record_event (ScanDir d) w)
      | Some (File _) \<Rightarrow> (Inl (NotADirectoryError d), record_event (ScanDir d) w)
      | None \<Rightarrow> (Inl (FileNotFoundError d), record_event (ScanDir d) w))"

text \<open>
  \<^verbatim>\<open>os.path.getsize(p)\<close>. The size of a directory's own inode is not part of the
  store; it is read as 0.
\<close>

definition getsize :: "world \<Rightarrow> string \<Rightarrow> (error + nat) \<times> world" where
  "getsize w p =
     (case files w p of
        Some (File sz) \<Rightarrow> (Inr sz, record_event (GetSize p) w)
      | Some (Dir _) \<Rightarrow> (Inr 0, record_event (GetSize p) w)
      | None \<Rightarrow> (Inl (FileNotFoundError p), record_event (GetSize p) w))"

text \<open>
  A new child is entered into the listing of its parent directory, at the end, when
  the parent is a directory of the store and does not list it yet.
\<close>

definition add_child :: "filesystem \<Rightarrow> string \<Rightarrow> filesystem" where
  "add_child fs p =
     (case fs (dirname p) of
        Some (Dir ns) \<Rightarrow>
          (if basename p \<in> set ns then fs else fs(dirname p \<mapsto> Dir (ns @ [basename p])))
      | _ \<Rightarrow> fs)"

text \<open>
  \<^verbatim>\<open>os.makedirs(p, exist_ok=True)\<close>: nothing happens when \<^verbatim>\<open>p\<close> is a directory
  already; it raises when \<^verbatim>\<open>p\<close> or its parent is a regular file; otherwise the
  directory is created empty. \<^verbatim>\<open>os.makedirs\<close> creates the missing directories
  above \<^verbatim>\<open>p\<close> as well; the store does not enter them, and it does not resolve
  two spellings of a path to one node. What a creation makes of another path is
  therefore used below only where it cannot matter: for a path that is a regular
  file already, or when nothing is created.
\<close>

definition makedirs :: "world \<Rightarrow> string \<Rightarrow> (error + unit) \<times> world" where
  "makedirs w p =
     (case files w p of
        Some (Dir _) \<Rightarrow> (Inr (), record_event (MakeDirs p) w)
      | Some (File _) \<Rightarrow> (Inl (FileExistsError p), record_event (MakeDirs p) w)
      | None \<Rightarrow>
          (if isfile (files w) (dirname p)
           then (Inl (NotADirectoryError p), record_event (MakeDirs p) w)
           else (Inr (), record_event (MakeDirs p)
                   (w\<lparr>files := (add_child (files w) p)(p \<mapsto> Dir [])\<rparr>))))"

definition write_file :: "filesystem \<Rightarrow> string \<Rightarrow> nat \<Rightarrow> filesystem" where
  "write_file fs p sz = (add_child fs p)(p \<mapsto> File sz)"

text \<open>
  The encoder \<^verbatim>\<open>cwebp\<close> is an external program. It is a parameter of the model:
  for an input path and an output path it either fails (\<open>None\<close>: a non-zero exit
  status or an error starting the process) or exits with status 0 after a number of
  seconds, having written an output file of some size.
\<close>

type_synonym encoder = "string \<Rightarrow> string \<Rightarrow> (real \<times> nat) option"

section \<open>Converting one file\<close>

text \<open>
  \<^verbatim>\<open>convert_to_webp(input_path, output_path)\<close> runs the encoder with
  \<^verbatim>\<open>check=True\<close> inside \<^verbatim>\<open>try\<close>: every failure is caught and returned as
  \<^verbatim>\<open>(False, 0)\<close>, success as \<^verbatim>\<open>(True, elapsed)\<close>. No process can write a
  regular file over a directory, so the run fails when the output path is one.
\<close>

definition convert_to_webp ::
    "encoder \<Rightarrow> world \<Rightarrow> string \<Rightarrow> string \<Rightarrow> (bool \<times> real) \<times> world" where
  "convert_to_webp enc w input_path output_path =
     (let w' = record_event (RunEncoder input_path output_path) w in
      if isdir (files w) output_path then ((False, 0), w')
      else (case enc input_path output_path of
              None \<Rightarrow> ((False, 0), w')
            | Some (elapsed, new_size) \<Rightarrow>
                ((True, elapsed), w'\<lparr>files := write_file (files w') output_path new_size\<rparr>)))"

section \<open>Processing one directory\<close>

text \<open>
  The destination directory of \<^verbatim>\<open>process_directory\<close>: the base name of the source
  directory with the suffix \<^verbatim>\<open>_webp\<close>, under the output root when one is given
  (and is not the empty string), beside the source directory otherwise.
\<close>

definition destination_dir :: "string \<Rightarrow> string option \<Rightarrow> string" where
  "destination_dir tiff_dir output_root =
     (let base_name = basename tiff_dir @ ''_webp'' in
      case output_root of
        Some r \<Rightarrow> if r \<noteq> [] then join r base_name else join (dirname tiff_dir) base_name
      | None \<Rightarrow> join (dirname tiff_dir) base_name)"

definition is_tiff_name :: "string \<Rightarrow> bool" where
  "is_tiff_name n = endswith_any (lower n) [''.tif'', ''.tiff'']"

definition is_webp_name :: "string \<Rightarrow> bool" where
  "is_webp_name n = endswith (lower n) ''.webp''"

text \<open>The list \<^verbatim>\<open>tiff_files\<close>: the paths of the regular files with a TIFF extension.\<close>

definition list_tiff_files :: "world \<Rightarrow> string \<Rightarrow> (error + string list) \<times> world" where
  "list_tiff_files w tiff_dir =
     (case scandir w tiff_dir of
        (Inl e, w') \<Rightarrow> (Inl e, w')
      | (Inr ents, w') \<Rightarrow>
          (Inr (map path (filter (\<lambda>f. is_file (files w') f \<and> is_tiff_name (name f)) ents)), w'))"

text \<open>
  The filter of already converted files. With \<^verbatim>\<open>force_convert\<close> the list is taken
  as it is and the destination is not read. Otherwise \<^verbatim>\<open>converted\<close> is the set of
  the names, extension removed, of the regular files of the destination whose
  lower-cased name ends with \<^verbatim>\<open>.webp\<close>, and a source file stays when its own name,
  extension removed, is not in that set.
\<close>

definition converted_names :: "filesystem \<Rightarrow> dirent list \<Rightarrow> string set" where
  "converted_names fs ents =
     set (map (\<lambda>f. fst (splitext (name f)))
            (filter (\<lambda>f. is_file fs f \<and> is_webp_name (name f)) ents))"

definition files_to_convert ::
    "world \<Rightarrow> string \<Rightarrow> string list \<Rightarrow> bool \<Rightarrow> (error + string list) \<times> world" where
  "files_to_convert w webp_dir tiff_files force_convert =
     (if force_convert then (Inr tiff_files, w)
      else (case scandir w webp_dir of
              (Inl e, w') \<Rightarrow> (Inl e, w')
            | (Inr ents, w') \<Rightarrow>
                (Inr (filter (\<lambda>f. fst (splitext (basename f)) \<notin> converted_names (files w') ents)
                        tiff_files), w')))"

text \<open>
  The first half of \<^verbatim>\<open>process_directory\<close>, up to the work list: create the
  destination directory, list the TIFF files, filter them.
\<close>

definition work_list ::
    "world \<Rightarrow> string \<Rightarrow> string option \<Rightarrow> bool \<Rightarrow> (error + string list) \<times> world" where
  "work_list w tiff_dir output_root force_convert =
     (let webp_dir = destination_dir tiff_dir output_root in
      case makedirs w webp_dir of
        (Inl e, w1) \<Rightarrow> (Inl e, w1)
      | (Inr _, w1) \<Rightarrow>
          (case list_tiff_files w1 tiff_dir of
             (Inl e, w2) \<Rightarrow> (Inl e, w2)
           | (Inr tiff_files, w2) \<Rightarrow> files_to_convert w2 webp_dir tiff_files force_convert))"

text \<open>
  The conversion loop. Its variables are \<^verbatim>\<open>total_time\<close>, \<^verbatim>\<open>success_count\<close> and
  the list \<^verbatim>\<open>file_sizes\<close> of triples (original size, new size, ratio). The two
  size reads can raise, and so can the division when the original file is empty;
  an exception leaves the loop and the function. The progress bar only displays.
\<close>

definition output_path_of :: "string \<Rightarrow> string \<Rightarrow> string" where
  "output_path_of webp_dir tiff_path =
     (let file_name = fst (splitext (basename tiff_path)) @ ''.webp'' in
      join webp_dir file_name)"

type_synonym loop_state = "real \<times> nat \<times> (nat \<times> nat \<times> real) list"

fun convert_loop ::
    "encoder \<Rightarrow> string \<Rightarrow> string list \<Rightarrow> loop_state \<Rightarrow> world \<Rightarrow> (error + loop_state) \<times> world"
where
  "convert_loop enc webp_dir [] st w = (Inr st, w)"
| "convert_loop enc webp_dir (tiff_path # rest) (total_time, success_count, file_sizes) w =
     (let output_path = output_path_of webp_dir tiff_path in
      case getsize w tiff_path of
        (Inl e, w1) \<Rightarrow> (Inl e, w1)
      | (Inr orig_size, w1) \<Rightarrow>
          (case convert_to_webp enc w1 tiff_path output_path of
             ((success, elapsed), w2) \<Rightarrow>
               if success then
                 (case getsize w2 output_path of
                    (Inl e, w3) \<Rightarrow> (Inl e, w3)
                  | (Inr new_size, w3) \<Rightarrow>
                      (case true_div (real new_size) (real orig_size) of
                         Inl e \<Rightarrow> (Inl e, w3)
                       | Inr compression_ratio \<Rightarrow>
                           convert_loop enc webp_dir rest
                             (total_time + elapsed, success_count + 1,
                              file_sizes @ [(orig_size, new_size, compression_ratio)]) w3))
               else convert_loop enc webp_dir rest (total_time, success_count, file_sizes) w2))"

text \<open>
  The statistics of the directory:
  \<^verbatim>\<open>(success_count, total_time, avg_ratio, total_orig, total_compressed)\<close>.
\<close>

type_synonym dir_result = "nat \<times> real \<times> real \<times> nat \<times> nat"

definition directory_stats :: "loop_state \<Rightarrow> dir_result" where
  "directory_stats st =
     (case st of (total_time, success_count, file_sizes) \<Rightarrow>
        if file_sizes \<noteq> [] then
          (success_count, total_time,
           sum_list (map (\<lambda>(s, n, r). r) file_sizes) / real (length file_sizes),
           sum_list (map (\<lambda>(s, n, r). s) file_sizes),
           sum_list (map (\<lambda>(s, n, r). n) file_sizes))
        else (success_count, total_time, 0, 0, 0))"

definition process_directory ::
    "encoder \<Rightarrow> world \<Rightarrow> string \<Rightarrow> string option \<Rightarrow> bool \<Rightarrow> (error + dir_result) \<times> world"
where
  "process_directory enc w tiff_dir output_root force_convert =
     (case work_list w tiff_dir output_root force_convert of
        (Inl e, w') \<Rightarrow> (Inl e, w')
      | (Inr todo, w') \<Rightarrow>
          if todo = [] then (Inr (0, 0, 0, 0, 0), w')
          else (case convert_loop enc (destination_dir tiff_dir output_root) todo (0, 0, []) w' of
                  (Inl e, w'') \<Rightarrow> (Inl e, w'')
                | (Inr st, w'') \<Rightarrow> (Inr (directory_stats st), w'')))"

section \<open>Finding the directories with TIFF files\<close>

text \<open>
  The inner loop of \<^verbatim>\<open>find_tiff_dirs\<close> reads the entries of a subdirectory one by
  one and leaves at the first regular file with a TIFF extension. Beside
  \<^verbatim>\<open>has_tiff\<close> the model returns how many entries the loop has read.
\<close>

fun scan_for_tiff :: "filesystem \<Rightarrow> dirent list \<Rightarrow> bool \<times> nat" where
  "scan_for_tiff fs [] = (False, 0)"
| "scan_for_tiff fs (file_entry # rest) =
     (if is_file fs file_entry \<and> is_tiff_name (name file_entry) then (True, 1)
      else (case scan_for_tiff fs rest of (has_tiff, k) \<Rightarrow> (has_tiff, Suc k)))"

fun find_tiff_dirs_loop ::
    "dirent list \<Rightarrow> string list \<Rightarrow> world \<Rightarrow> (error + string list) \<times> world" where
  "find_tiff_dirs_loop [] tiff_dirs w = (Inr tiff_dirs, w)"
| "find_tiff_dirs_loop (entry # rest) tiff_dirs w =
     (if \<not> is_dir (files w) entry then find_tiff_dirs_loop rest tiff_dirs w
      else (case scandir w (path entry) of
              (Inl e, w') \<Rightarrow> (Inl e, w')
            | (Inr children, w') \<Rightarrow>
                if fst (scan_for_tiff (files w') children)
                then find_tiff_dirs_loop rest (tiff_dirs @ [path entry]) w'
                else find_tiff_dirs_loop rest tiff_dirs w'))"

definition find_tiff_dirs :: "world \<Rightarrow> string \<Rightarrow> (error + string list) \<times> world" where
  "find_tiff_dirs w root_path =
     (case scandir w root_path of
        (Inl e, w') \<Rightarrow> (Inl e, w')
      | (Inr entries, w') \<Rightarrow> find_tiff_dirs_loop entries [] w')"

section \<open>The driver\<close>

record args =
  target :: "string option"
  output_dir :: "string option"

record run_totals =
  total_files :: nat
  total_time :: real
  total_orig_size :: nat
  total_compressed_size :: nat

text \<open>
  How \<^verbatim>\<open>main\<close> can stop early: \<^verbatim>\<open>sys.exit(status)\<close>, or an exception that reaches
  the handler at the bottom of the script.
\<close>

datatype stop = SysExit nat | Raised error

text \<open>The four \<^verbatim>\<open>+=\<close> after each call of \<^verbatim>\<open>process_directory\<close>.\<close>

definition accumulate :: "run_totals \<Rightarrow> dir_result \<Rightarrow> run_totals" where
  "accumulate t r =
     (case r of (count, time_spent, ratio, orig, compr) \<Rightarrow>
        \<lparr>total_files = total_files t + count,
         total_time = total_time t + time_spent,
         total_orig_size = total_orig_size t + orig,
         total_compressed_size = total_compressed_size t + compr\<rparr>)"

text \<open>The output root is created when it is given, not empty and does not exist.\<close>

definition ensure_output_dir :: "world \<Rightarrow> string option \<Rightarrow> (stop + unit) \<times> world" where
  "ensure_output_dir w out =
     (case out of
        None \<Rightarrow> (Inr (), w)
      | Some d \<Rightarrow>
          if d \<noteq> [] \<and> \<not> path_exists (files w) d then
            (case makedirs w d of
               (Inl e, w') \<Rightarrow> (Inl (SysExit 1), w')
             | (Inr u, w') \<Rightarrow> (Inr (), w'))
          else (Inr (), w))"

text \<open>The loop over the directories of a list file: a path that is no directory is
  reported and passed over.\<close>

fun process_listed ::
    "encoder \<Rightarrow> string option \<Rightarrow> string list \<Rightarrow> run_totals \<Rightarrow> world
      \<Rightarrow> (stop + run_totals) \<times> world" where
  "process_listed enc out [] t w = (Inr t, w)"
| "process_listed enc out (directory # rest) t w =
     (if isdir (files w) directory then
        (case process_directory enc w directory out False of
           (Inl e, w') \<Rightarrow> (Inl (Raised e), w')
         | (Inr r, w') \<Rightarrow> process_listed enc out rest (accumulate t r) w')
      else process_listed enc out rest t w)"

text \<open>The loop over the directories found by \<^verbatim>\<open>find_tiff_dirs\<close>.\<close>

fun process_found ::
    "encoder \<Rightarrow> string option \<Rightarrow> string list \<Rightarrow> run_totals \<Rightarrow> world
      \<Rightarrow> (stop + run_totals) \<times> world" where
  "process_found enc out [] t w = (Inr t, w)"
| "process_found enc out (directory # rest) t w =
     (case process_directory enc w directory out False of
        (Inl e, w') \<Rightarrow> (Inl (Raised e), w')
      | (Inr r, w') \<Rightarrow> process_found enc out rest (accumulate t r) w')"

text \<open>
  The branch of \<^verbatim>\<open>main\<close> for a given target. The lines of the list file are a
  parameter: \<open>read_lines p\<close> is what iterating over the open text file yields.
\<close>

definition run_target ::
    "encoder \<Rightarrow> (string \<Rightarrow> string list) \<Rightarrow> string option \<Rightarrow> string \<Rightarrow> run_totals \<Rightarrow> world
      \<Rightarrow> (stop + run_totals) \<times> world" where
  "run_target enc read_lines out tgt t w =
     (if isdir (files w) tgt then
        (case process_directory enc w tgt out True of
           (Inl e, w') \<Rightarrow> (Inl (Raised e), w')
         | (Inr r, w') \<Rightarrow> (Inr (accumulate t r), w'))
      else if isfile (files w) tgt \<and> endswith tgt ''.txt'' then
        (let directories = filter (\<lambda>l. l \<noteq> []) (map strip (read_lines tgt)) in
         process_listed enc out directories t w)
      else (Inl (SysExit 1), w))"

text \<open>The branch without a target: the subdirectories of the working directory.\<close>

definition run_scan ::
    "encoder \<Rightarrow> string option \<Rightarrow> string \<Rightarrow> run_totals \<Rightarrow> world \<Rightarrow> (stop + run_totals) \<times> world"
where
  "run_scan enc out cwd t w =
     (case find_tiff_dirs w cwd of
        (Inl e, w') \<Rightarrow> (Inl (Raised e), w')
      | (Inr tiff_dirs, w') \<Rightarrow> process_found enc out tiff_dirs t w')"

text \<open>
  The final statistics: \<^verbatim>\<open>avg_file_time\<close> and \<^verbatim>\<open>compression_ratio\<close>, each a
  division behind a test of its divisor.
\<close>

definition summary :: "run_totals \<Rightarrow> error + real \<times> real" where
  "summary t =
     (case (if total_files t \<noteq> 0 then true_div (total_time t) (real (total_files t))
            else Inr 0) of
        Inl e \<Rightarrow> Inl e
      | Inr avg_file_time \<Rightarrow>
          (case (if total_orig_size t \<noteq> 0
                 then true_div (real (total_compressed_size t)) (real (total_orig_size t))
                 else Inr 0) of
             Inl e \<Rightarrow> Inl e
           | Inr compression_ratio \<Rightarrow> Inr (avg_file_time, compression_ratio)))"

text \<open>
  \<^verbatim>\<open>main\<close>: a target counts as given when it is neither \<^verbatim>\<open>None\<close> nor the empty
  string (\<^verbatim>\<open>if args.target:\<close>). The result is the totals with the two statistics
  of the report, or the way the run stopped. The report itself is log output.
\<close>

definition main ::
    "encoder \<Rightarrow> (string \<Rightarrow> string list) \<Rightarrow> string \<Rightarrow> args \<Rightarrow> world
      \<Rightarrow> (stop + run_totals \<times> real \<times> real) \<times> world" where
  "main enc read_lines cwd a w =
     (let t0 = \<lparr>total_files = 0, total_time = 0, total_orig_size = 0,
                total_compressed_size = 0\<rparr> in
      case ensure_output_dir w (output_dir a) of
        (Inl s, w1) \<Rightarrow> (Inl s, w1)
      | (Inr u, w1) \<Rightarrow>
          (case (case target a of
                   Some tgt \<Rightarrow>
                     if tgt \<noteq> [] then run_target enc read_lines (output_dir a) tgt t0 w1
                     else run_scan enc (output_dir a) cwd t0 w1
                 | None \<Rightarrow> run_scan enc (output_dir a) cwd t0 w1) of
             (Inl s, w2) \<Rightarrow> (Inl s, w2)
           | (Inr t, w2) \<Rightarrow>
               (case summary t of
                  Inl e \<Rightarrow> (Inl (Raised e), w2)
                | Inr (avg_file_time, compression_ratio) \<Rightarrow>
                    (Inr (t, avg_file_time, compression_ratio), w2))))"

text \<open>
  The exit status of the script: the argument of \<^verbatim>\<open>sys.exit\<close>, 1 when the handler
  at the bottom caught an exception, 0 when \<^verbatim>\<open>main\<close> returned.
\<close>

definition exit_status :: "(stop + 'a) \<Rightarrow> nat" where
  "exit_status r = (case r of Inl (SysExit n) \<Rightarrow> n | Inl (Raised e) \<Rightarrow> 1 | Inr x \<Rightarrow> 0)"

section \<open>Notions used to state the properties\<close>

text \<open>The TIFF source files of a directory: the paths of its regular files with a
  TIFF extension, in listing order.\<close>

definition tiff_paths :: "filesystem \<Rightarrow> string \<Rightarrow> string list" where
  "tiff_paths fs tiff_dir =
     (case fs tiff_dir of
        Some (Dir ns) \<Rightarrow>
          map (join tiff_dir) (filter (\<lambda>n. isfile fs (join tiff_dir n) \<and> is_tiff_name n) ns)
      | _ \<Rightarrow> [])"

text \<open>
  A source file has a match in the destination when the destination holds a regular
  file whose lower-cased name ends with \<^verbatim>\<open>.webp\<close> and whose name without extension
  is the source file's name without extension: compared as the strings are
  (\<open>has_exact_match\<close>), or after lower-casing both (\<open>has_caseless_match\<close>).
\<close>

definition has_exact_match :: "filesystem \<Rightarrow> string \<Rightarrow> string \<Rightarrow> bool" where
  "has_exact_match fs webp_dir f =
     (case fs webp_dir of
        Some (Dir ns) \<Rightarrow>
          list_ex (\<lambda>n. isfile fs (join webp_dir n) \<and> is_webp_name n \<and>
                        fst (splitext n) = fst (splitext (basename f))) ns
      | _ \<Rightarrow> False)"

definition has_caseless_match :: "filesystem \<Rightarrow> string \<Rightarrow> string \<Rightarrow> bool" where
  "has_caseless_match fs webp_dir f =
     (case fs webp_dir of
        Some (Dir ns) \<Rightarrow>
          list_ex (\<lambda>n. isfile fs (join webp_dir n) \<and> is_webp_name n \<and>
                        lower (fst (splitext n)) = lower (fst (splitext (basename f)))) ns
      | _ \<Rightarrow> False)"

text \<open>The encoder runs of a trace, as pairs of input and output path.\<close>

fun encoder_runs :: "event list \<Rightarrow> (string \<times> string) list" where
  "encoder_runs [] = []"
| "encoder_runs (RunEncoder i out # evs) = (i, out) # encoder_runs evs"
| "encoder_runs (ev # evs) = encoder_runs evs"

text \<open>A directory has a TIFF child when one of its entries is a regular file with a
  TIFF extension.\<close>

definition tiff_child :: "filesystem \<Rightarrow> string \<Rightarrow> string \<Rightarrow> bool" where
  "tiff_child fs d c = (isfile fs (join d c) \<and> is_tiff_name c)"

definition has_tiff_child :: "filesystem \<Rightarrow> string \<Rightarrow> bool" where
  "has_tiff_child fs d =
     (case fs d of Some (Dir cs) \<Rightarrow> list_ex (tiff_child fs d) cs | _ \<Rightarrow> False)"

text \<open>
  The results of the directories a run processes, in order: each call of
  \<^verbatim>\<open>process_directory\<close> starts in the world the previous one has left.
\<close>

fun results_listed :: "encoder \<Rightarrow> string option \<Rightarrow> string list \<Rightarrow> world \<Rightarrow> dir_result list" where
  "results_listed enc out [] w = []"
| "results_listed enc out (directory # rest) w =
     (if isdir (files w) directory then
        (case process_directory enc w directory out False of
           (Inl e, w') \<Rightarrow> []
         | (Inr r, w') \<Rightarrow> r # results_listed enc out rest w')
      else results_listed enc out rest w)"

fun results_found :: "encoder \<Rightarrow> string option \<Rightarrow> string list \<Rightarrow> world \<Rightarrow> dir_result list" where
  "results_found enc out [] w = []"
| "results_found enc out (directory # rest) w =
     (case process_directory enc w directory out False of
        (Inl e, w') \<Rightarrow> []
      | (Inr r, w') \<Rightarrow> r # results_found enc out rest w')"

definition results_scan :: "encoder \<Rightarrow> string option \<Rightarrow> string \<Rightarrow> world \<Rightarrow> dir_result list" where
  "results_scan enc out cwd w =
     (case find_tiff_dirs w cwd of
        (Inl e, w') \<Rightarrow> []
      | (Inr tiff_dirs, w') \<Rightarrow> results_found enc out tiff_dirs w')"

definition processed_results ::
    "encoder \<Rightarrow> (string \<Rightarrow> string list) \<Rightarrow> string \<Rightarrow> args \<Rightarrow> world \<Rightarrow> dir_result list" where
  "processed_results enc read_lines cwd a w =
     (let w1 = snd (ensure_output_dir w (output_dir a)) in
      case target a of
        Some tgt \<Rightarrow>
          if tgt \<noteq> [] then
            (if isdir (files w1) tgt then
               (case process_directory enc w1 tgt (output_dir a) True of
                  (Inl e, w') \<Rightarrow> []
                | (Inr r, w') \<Rightarrow> [r])
             else if isfile (files w1) tgt \<and> endswith tgt ''.txt'' then
               results_listed enc (output_dir a)
                 (filter (\<lambda>l. l \<noteq> []) (map strip (read_lines tgt))) w1
             else [])
          else results_scan enc (output_dir a) cwd w1
      | None \<Rightarrow> results_scan enc (output_dir a) cwd w1)"

text \<open>The field-wise sums of a list of directory results (the mean ratio of a
  directory has no place in the totals).\<close>

definition sum_results :: "dir_result list \<Rightarrow> run_totals" where
  "sum_results rs =
     \<lparr>total_files = sum_list (map (\<lambda>(c, tm, r, og, cp). c) rs),
      total_time = sum_list (map (\<lambda>(c, tm, r, og, cp). tm) rs),
      total_orig_size = sum_list (map (\<lambda>(c, tm, r, og, cp). og) rs),
      total_compressed_size = sum_list (map (\<lambda>(c, tm, r, og, cp). cp) rs)\<rparr>"

text \<open>The mean of the mean ratios of a list of directory results.\<close>

definition mean_of_ratios :: "dir_result list \<Rightarrow> real" where
  "mean_of_ratios rs = sum_list (map (\<lambda>(c, tm, r, og, cp). r) rs) / real (length rs)"

text \<open>
  How the conversion loop can change the store, seen from the destination directory
  \<open>wd\<close>: a path that does not end with the letter \<^verbatim>\<open>p\<close> keeps its node; every other
  directory keeps its listing; regular files stay regular files; the listing of
  \<open>wd\<close> can only gain names.
\<close>

definition grows :: "string \<Rightarrow> filesystem \<Rightarrow> filesystem \<Rightarrow> bool" where
  "grows wd fs fs' =
     ((\<forall>q. (q = [] \<or> last q \<noteq> CHR ''p'') \<longrightarrow> fs' q = fs q) \<and>
      (\<forall>q ns. q \<noteq> wd \<and> fs q = Some (Dir ns) \<longrightarrow> fs' q = Some (Dir ns)) \<and>
      (\<forall>q. isfile fs q \<longrightarrow> isfile fs' q) \<and>
      (\<forall>ns. fs wd = Some (Dir ns) \<longrightarrow> (\<exists>ns'. fs' wd = Some (Dir ns') \<and> set ns \<subseteq> set ns')))"

section \<open>Example worlds\<close>

text \<open>
  A working directory \<^verbatim>\<open>/w\<close>: \<^verbatim>\<open>in\<close> holds two TIFF files, of which \<^verbatim>\<open>a.tif\<close> has
  been converted; the destination also holds \<^verbatim>\<open>b.webp\<close>, which differs from
  \<^verbatim>\<open>B.TIFF\<close> in case. \<^verbatim>\<open>old\<close> is converted completely, \<^verbatim>\<open>notes\<close> holds no TIFF file.
\<close>

definition ex_fs :: filesystem where
  "ex_fs =
     [''/w'' \<mapsto> Dir [''in'', ''list.txt'', ''notes'', ''in_webp'', ''old'', ''old_webp''],
      ''/w/in'' \<mapsto> Dir [''a.tif'', ''B.TIFF'', ''n.txt''],
      ''/w/in/a.tif'' \<mapsto> File 1000,
      ''/w/in/B.TIFF'' \<mapsto> File 2000,
      ''/w/in/n.txt'' \<mapsto> File 5,
      ''/w/in_webp'' \<mapsto> Dir [''a.webp'', ''b.webp''],
      ''/w/in_webp/a.webp'' \<mapsto> File 400,
      ''/w/in_webp/b.webp'' \<mapsto> File 700,
      ''/w/list.txt'' \<mapsto> File 10,
      ''/w/notes'' \<mapsto> Dir [''r.txt''],
      ''/w/notes/r.txt'' \<mapsto> File 7,
      ''/w/old'' \<mapsto> Dir [''n.txt'', ''c.tif''],
      ''/w/old/n.txt'' \<mapsto> File 3,
      ''/w/old/c.tif'' \<mapsto> File 300,
      ''/w/old_webp'' \<mapsto> Dir [''c.webp''],
      ''/w/old_webp/c.webp'' \<mapsto> File 100]"

definition ex_world :: world where
  "ex_world = \<lparr>files = ex_fs, trace = []\<rparr>"

text \<open>A directory \<^verbatim>\<open>d\<close> with two files that differ in their extension only.\<close>

definition dup_fs :: filesystem where
  "dup_fs =
     [''d'' \<mapsto> Dir [''x.tif'', ''x.tiff''],
      ''d/x.tif'' \<mapsto> File 10,
      ''d/x.tiff'' \<mapsto> File 20]"

definition dup_world :: world where
  "dup_world = \<lparr>files = dup_fs, trace = []\<rparr>"

text \<open>An encoder that halves \<^verbatim>\<open>d/x.tif\<close> in one second, brings \<^verbatim>\<open>d/x.tiff\<close> down to
  7 bytes in two and fails on everything else; and one that fails on \<^verbatim>\<open>d/x.tif\<close>.\<close>

definition dup_enc :: encoder where
  "dup_enc i out =
     (if i = ''d/x.tif'' then Some (1, 5) else if i = ''d/x.tiff'' then Some (2, 7) else None)"

definition picky_enc :: encoder where
  "picky_enc i out = (if i = ''d/x.tiff'' then Some (2, 7) else None)"

text \<open>Two source directories and a list file naming them, with a blank line and a
  path that does not exist.\<close>

definition two_fs :: filesystem where
  "two_fs =
     [''a'' \<mapsto> Dir [''p.tif''],
      ''a/p.tif'' \<mapsto> File 100,
      ''b'' \<mapsto> Dir [''q.tif''],
      ''b/q.tif'' \<mapsto> File 2000,
      ''l.txt'' \<mapsto> File 12]"

definition two_world :: world where
  "two_world = \<lparr>files = two_fs, trace = []\<rparr>"

definition two_lines :: "string \<Rightarrow> string list" where
  "two_lines p = (if p = ''l.txt'' then [''a'' @ [CHR 0x0A], [CHR 0x0A], '' b '' @ [CHR 0x0A], ''zz''] else [])"

definition two_enc :: encoder where
  "two_enc i out =
     (if i = ''a/p.tif'' then Some (1, 80) else if i = ''b/q.tif'' then Some (3, 500) else None)"



text \<open>The directory \<^verbatim>\<open>d\<close> again, with its destination created and still empty.\<close>

definition dup_ready :: world where
  "dup_ready = \<lparr>files = dup_fs(''d_webp'' \<mapsto> Dir []), trace = []\<rparr>"




section \<open>Evaluation rules\<close>

lemmas string_defs = lower_def lower_char_def endswith_def endswith_any_def suffix_to_prefix
  starts_with_sep_def ends_with_sep_def join_def basename_def dirname_def splitext_def
  is_space_def strip_def is_tiff_name_def is_webp_name_def

lemmas os_defs = true_div_def isdir_def isfile_def path_exists_def is_file_def is_dir_def
  record_event_def scandir_def getsize_def add_child_def makedirs_def write_file_def
  convert_to_webp_def

lemmas run_defs = destination_dir_def list_tiff_files_def converted_names_def
  files_to_convert_def work_list_def output_path_of_def directory_stats_def
  process_directory_def find_tiff_dirs_def accumulate_def ensure_output_dir_def
  run_target_def run_scan_def summary_def main_def exit_status_def Let_def

section \<open>The operations on the world\<close>

lemma files_record_event: "files (record_event ev w) = files w"
  by (simp add: record_event_def)

lemma trace_record_event: "trace (record_event ev w) = trace w @ [ev]"
  by (simp add: record_event_def)

lemma scandir_world: "snd (scandir w d) = record_event (ScanDir d) w"
  by (simp add: scandir_def split: option.splits node.splits)

lemma getsize_world: "snd (getsize w p) = record_event (GetSize p) w"
  by (simp add: getsize_def split: option.splits node.splits)

lemma scandir_Inr:
  "scandir w d = (Inr ents, w') \<Longrightarrow>
     \<exists>ns. files w d = Some (Dir ns) \<and> ents = map (\<lambda>n. \<lparr>name = n, path = join d n\<rparr>) ns
        \<and> w' = record_event (ScanDir d) w"
  by (auto simp: scandir_def split: option.splits node.splits)

lemma makedirs_trace: "trace (snd (makedirs w p)) = trace w @ [MakeDirs p]"
  by (simp add: makedirs_def trace_record_event split: option.splits node.splits)

lemma makedirs_Inr_files:
  "makedirs w p = (Inr u, w') \<Longrightarrow>
     files w' = (if isdir (files w) p then files w else (add_child (files w) p)(p \<mapsto> Dir []))"
  by (auto simp: makedirs_def isdir_def files_record_event
           split: option.splits node.splits if_splits)

lemma encoder_runs_append: "encoder_runs (xs @ ys) = encoder_runs xs @ encoder_runs ys"
  by (induction xs rule: encoder_runs.induct) simp_all

section \<open>The work list\<close>

lemma list_tiff_files_Inr:
  assumes "list_tiff_files w d = (Inr ps, w')"
  shows "ps = tiff_paths (files w) d \<and> w' = record_event (ScanDir d) w"
proof -
  from assms obtain ents where s: "scandir w d = (Inr ents, w')"
    by (auto simp: list_tiff_files_def split: prod.splits sum.splits)
  from scandir_Inr[OF s] obtain ns where ns: "files w d = Some (Dir ns)"
    "ents = map (\<lambda>n. \<lparr>name = n, path = join d n\<rparr>) ns" "w' = record_event (ScanDir d) w"
    by blast
  from assms s
  have "ps = map path (filter (\<lambda>f. is_file (files w') f \<and> is_tiff_name (name f)) ents)"
    by (simp add: list_tiff_files_def)
  with ns show ?thesis
    by (simp add: tiff_paths_def filter_map o_def is_file_def files_record_event)
qed

lemma files_to_convert_trace:
  "files_to_convert w wd ps force = (r, w') \<Longrightarrow>
     files w' = files w \<and> trace w' = trace w @ (if force then [] else [ScanDir wd])"
  by (auto simp: files_to_convert_def files_record_event trace_record_event scandir_def
           split: if_splits prod.splits sum.splits option.splits node.splits)

lemma work_list_Inr:
  assumes "work_list w tiff_dir output_root force = (Inr todo, w')"
  shows "\<exists>u w1 w2. makedirs w (destination_dir tiff_dir output_root) = (Inr u, w1) \<and>
           list_tiff_files w1 tiff_dir = (Inr (tiff_paths (files w1) tiff_dir), w2) \<and>
           w2 = record_event (ScanDir tiff_dir) w1 \<and>
           files_to_convert w2 (destination_dir tiff_dir output_root)
             (tiff_paths (files w1) tiff_dir) force = (Inr todo, w')"
proof -
  let ?wd = "destination_dir tiff_dir output_root"
  from assms obtain u w1 where m: "makedirs w ?wd = (Inr u, w1)"
    by (auto simp: work_list_def Let_def split: prod.splits sum.splits)
  with assms obtain ps w2 where l: "list_tiff_files w1 tiff_dir = (Inr ps, w2)"
    and f: "files_to_convert w2 ?wd ps force = (Inr todo, w')"
    by (auto simp: work_list_def Let_def split: prod.splits sum.splits)
  from list_tiff_files_Inr[OF l] l f m show ?thesis by simp
qed

lemma converted_names_iff:
  "(b \<in> converted_names fs (map (\<lambda>n. \<lparr>name = n, path = join wd n\<rparr>) ns)) =
   list_ex (\<lambda>n. isfile fs (join wd n) \<and> is_webp_name n \<and> fst (splitext n) = b) ns"
proof -
  have "converted_names fs (map (\<lambda>n. \<lparr>name = n, path = join wd n\<rparr>) ns) =
        set (map (\<lambda>n. fst (splitext n))
               (filter (\<lambda>n. isfile fs (join wd n) \<and> is_webp_name n) ns))"
    by (simp add: converted_names_def filter_map o_def is_file_def)
  then show ?thesis by (auto simp: list_ex_iff)
qed

lemma files_to_convert_Inr:
  assumes "files_to_convert w wd ps False = (Inr todo, w')"
  shows "todo = filter (\<lambda>f. \<not> has_exact_match (files w) wd f) ps"
proof -
  from assms obtain ents where s: "scandir w wd = (Inr ents, w')"
    by (auto simp: files_to_convert_def split: prod.splits sum.splits)
  from scandir_Inr[OF s] obtain ns where ns: "files w wd = Some (Dir ns)"
    "ents = map (\<lambda>n. \<lparr>name = n, path = join wd n\<rparr>) ns" "w' = record_event (ScanDir wd) w"
    by blast
  from assms s
  have "todo = filter (\<lambda>f. fst (splitext (basename f)) \<notin> converted_names (files w') ents) ps"
    by (simp add: files_to_convert_def)
  then show ?thesis
    using ns by (simp add: converted_names_iff has_exact_match_def files_record_event)
qed

text \<open>
  Claim C1, as the code has it. Without \<^verbatim>\<open>force_convert\<close> the work list is the list
  of the TIFF files of the source directory without those that have a match in the
  destination: a regular file whose lower-cased name ends with \<^verbatim>\<open>.webp\<close> and whose
  name without extension equals, character by character, the source file's name
  without extension. So of \<open>N\<close> TIFF files of which \<open>M\<close> have such a match, \<open>N - M\<close>
  are selected.
\<close>

theorem pending_iff_no_exact_match:
  assumes "work_list w tiff_dir output_root False = (Inr todo, w')"
  shows "todo = filter (\<lambda>f. \<not> has_exact_match (files w') (destination_dir tiff_dir output_root) f)
                  (tiff_paths (files w') tiff_dir) \<and>
         length todo =
           length (tiff_paths (files w') tiff_dir) -
           length (filter (has_exact_match (files w') (destination_dir tiff_dir output_root))
                     (tiff_paths (files w') tiff_dir))"
proof -
  let ?wd = "destination_dir tiff_dir output_root"
  from work_list_Inr[OF assms] obtain u w1 w2 where
    w2: "w2 = record_event (ScanDir tiff_dir) w1" and
    f: "files_to_convert w2 ?wd (tiff_paths (files w1) tiff_dir) False = (Inr todo, w')"
    by blast
  from files_to_convert_trace[OF f] w2 have fw: "files w' = files w1" "files w2 = files w1"
    by (simp_all add: files_record_event)
  from files_to_convert_Inr[OF f] fw
  have eq: "todo = filter (\<lambda>f. \<not> has_exact_match (files w') ?wd f)
                     (tiff_paths (files w') tiff_dir)"
    by simp
  have "length (filter (\<lambda>f. \<not> P f) xs) = length xs - length (filter P xs)"
    for P and xs :: "string list"
    using sum_length_filter_compl[of P xs] by simp
  with eq show ?thesis by metis
qed

theorem pending_iff_no_exact_match_witness:
  "work_list ex_world ''/w/in'' None False =
     (Inr [''/w/in/B.TIFF''],
      \<lparr>files = ex_fs,
       trace = [MakeDirs ''/w/in_webp'', ScanDir ''/w/in'', ScanDir ''/w/in_webp'']\<rparr>) \<and>
   tiff_paths ex_fs ''/w/in'' = [''/w/in/a.tif'', ''/w/in/B.TIFF''] \<and>
   filter (has_exact_match ex_fs ''/w/in_webp'') (tiff_paths ex_fs ''/w/in'') = [''/w/in/a.tif''] \<and>
   length [''/w/in/B.TIFF''] = length (tiff_paths ex_fs ''/w/in'') -
     length (filter (has_exact_match ex_fs ''/w/in_webp'') (tiff_paths ex_fs ''/w/in''))"
proof -
  have h: "work_list ex_world ''/w/in'' None False =
     (Inr [''/w/in/B.TIFF''],
      \<lparr>files = ex_fs,
       trace = [MakeDirs ''/w/in_webp'', ScanDir ''/w/in'', ScanDir ''/w/in_webp'']\<rparr>)"
    by (simp add: ex_world_def ex_fs_def string_defs os_defs run_defs)
  have d: "destination_dir ''/w/in'' None = ''/w/in_webp''"
    by (simp add: string_defs run_defs)
  have t: "tiff_paths ex_fs ''/w/in'' = [''/w/in/a.tif'', ''/w/in/B.TIFF'']"
    by (simp add: tiff_paths_def ex_fs_def string_defs os_defs)
  have m: "filter (has_exact_match ex_fs ''/w/in_webp'') [''/w/in/a.tif'', ''/w/in/B.TIFF'']
             = [''/w/in/a.tif'']"
    by (simp add: has_exact_match_def ex_fs_def string_defs os_defs)
  from pending_iff_no_exact_match[OF h] h d t m show ?thesis by simp
qed

text \<open>
  The comparison is not case-insensitive: \<^verbatim>\<open>B.TIFF\<close> is selected although the
  destination holds \<^verbatim>\<open>b.webp\<close>, so both TIFF files have a match after lower-casing
  and still one of the two is selected.
\<close>

theorem caseless_match_still_selected:
  "fst (work_list ex_world ''/w/in'' None False) = Inr [''/w/in/B.TIFF''] \<and>
   has_caseless_match ex_fs ''/w/in_webp'' ''/w/in/B.TIFF'' \<and>
   tiff_paths ex_fs ''/w/in'' = [''/w/in/a.tif'', ''/w/in/B.TIFF''] \<and>
   filter (has_caseless_match ex_fs ''/w/in_webp'') (tiff_paths ex_fs ''/w/in'')
     = [''/w/in/a.tif'', ''/w/in/B.TIFF'']"
proof -
  have h: "fst (work_list ex_world ''/w/in'' None False) = Inr [''/w/in/B.TIFF'']"
    by (simp add: ex_world_def ex_fs_def string_defs os_defs run_defs)
  have t: "tiff_paths ex_fs ''/w/in'' = [''/w/in/a.tif'', ''/w/in/B.TIFF'']"
    by (simp add: tiff_paths_def ex_fs_def string_defs os_defs)
  have c: "has_caseless_match ex_fs ''/w/in_webp'' ''/w/in/B.TIFF''"
    by (simp add: has_caseless_match_def ex_fs_def string_defs os_defs)
  have c2: "has_caseless_match ex_fs ''/w/in_webp'' ''/w/in/a.tif''"
    by (simp add: has_caseless_match_def ex_fs_def string_defs os_defs)
  from h t c c2 show ?thesis by simp
qed

text \<open>
  Claim C4. With \<^verbatim>\<open>force_convert\<close> the work list is the list of all TIFF files of
  the source directory, in listing order, whatever the destination holds: after the
  destination directory has been created, only the source directory is read.
\<close>

theorem force_selects_all:
  assumes "work_list w tiff_dir output_root True = (Inr todo, w')"
  shows "todo = tiff_paths (files w') tiff_dir \<and>
         files w' = files (snd (makedirs w (destination_dir tiff_dir output_root))) \<and>
         trace w' = trace w @ [MakeDirs (destination_dir tiff_dir output_root), ScanDir tiff_dir]"
proof -
  let ?wd = "destination_dir tiff_dir output_root"
  from work_list_Inr[OF assms] obtain u w1 w2 where
    m: "makedirs w ?wd = (Inr u, w1)" and
    w2: "w2 = record_event (ScanDir tiff_dir) w1" and
    f: "files_to_convert w2 ?wd (tiff_paths (files w1) tiff_dir) True = (Inr todo, w')"
    by blast
  from f have eq: "todo = tiff_paths (files w1) tiff_dir" "w' = w2"
    by (simp_all add: files_to_convert_def)
  from m have t1: "trace w1 = trace w @ [MakeDirs ?wd]" using makedirs_trace[of w ?wd] by simp
  show ?thesis using eq w2 m t1 by (simp add: files_record_event trace_record_event)
qed

theorem force_selects_all_witness:
  "work_list ex_world ''/w/in'' None True =
     (Inr [''/w/in/a.tif'', ''/w/in/B.TIFF''],
      \<lparr>files = ex_fs, trace = [MakeDirs ''/w/in_webp'', ScanDir ''/w/in'']\<rparr>) \<and>
   [''/w/in/a.tif'', ''/w/in/B.TIFF''] = tiff_paths ex_fs ''/w/in''"
proof -
  have h: "work_list ex_world ''/w/in'' None True =
     (Inr [''/w/in/a.tif'', ''/w/in/B.TIFF''],
      \<lparr>files = ex_fs, trace = [MakeDirs ''/w/in_webp'', ScanDir ''/w/in'']\<rparr>)"
    by (simp add: ex_world_def ex_fs_def string_defs os_defs run_defs)
  from force_selects_all[OF h] h show ?thesis by simp
qed

text \<open>
  Claim C5. When the work list is empty, \<^verbatim>\<open>process_directory\<close> returns five zeros
  in the world the selection has left: the store differs from the initial one at
  most by the new destination directory (nothing at all when it existed), the
  trace has the creation and the one or two listings, and no encoder run is added.
\<close>

theorem empty_work_list_returns_zero:
  assumes "work_list w tiff_dir output_root force = (Inr [], w')"
  shows "process_directory enc w tiff_dir output_root force = (Inr (0, 0, 0, 0, 0), w') \<and>
         files w' =
           (if isdir (files w) (destination_dir tiff_dir output_root) then files w
            else (add_child (files w) (destination_dir tiff_dir output_root))
                   (destination_dir tiff_dir output_root \<mapsto> Dir [])) \<and>
         trace w' = trace w @ [MakeDirs (destination_dir tiff_dir output_root), ScanDir tiff_dir]
                      @ (if force then [] else [ScanDir (destination_dir tiff_dir output_root)]) \<and>
         encoder_runs (trace w') = encoder_runs (trace w)"
proof -
  let ?wd = "destination_dir tiff_dir output_root"
  from work_list_Inr[OF assms] obtain u w1 w2 where
    m: "makedirs w ?wd = (Inr u, w1)" and
    w2: "w2 = record_event (ScanDir tiff_dir) w1" and
    f: "files_to_convert w2 ?wd (tiff_paths (files w1) tiff_dir) force = (Inr [], w')"
    by blast
  have p: "process_directory enc w tiff_dir output_root force = (Inr (0, 0, 0, 0, 0), w')"
    using assms by (simp add: process_directory_def)
  from files_to_convert_trace[OF f] w2
  have fw: "files w' = files w1" and
       tw: "trace w' = trace w1 @ [ScanDir tiff_dir] @ (if force then [] else [ScanDir ?wd])"
    by (simp_all add: files_record_event trace_record_event)
  from m have t1: "trace w1 = trace w @ [MakeDirs ?wd]" using makedirs_trace[of w ?wd] by simp
  from tw t1 have tr: "trace w' = trace w @ [MakeDirs ?wd, ScanDir tiff_dir]
                      @ (if force then [] else [ScanDir ?wd])" by simp
  have "encoder_runs (trace w') = encoder_runs (trace w)"
    unfolding tr by (simp add: encoder_runs_append)
  with p fw tr makedirs_Inr_files[OF m] show ?thesis by simp
qed

theorem empty_work_list_returns_zero_witness:
  "work_list ex_world ''/w/old'' None False =
     (Inr [], \<lparr>files = ex_fs,
               trace = [MakeDirs ''/w/old_webp'', ScanDir ''/w/old'', ScanDir ''/w/old_webp'']\<rparr>) \<and>
   process_directory dup_enc ex_world ''/w/old'' None False =
     (Inr (0, 0, 0, 0, 0),
      \<lparr>files = ex_fs,
       trace = [MakeDirs ''/w/old_webp'', ScanDir ''/w/old'', ScanDir ''/w/old_webp'']\<rparr>)"
proof -
  have h: "work_list ex_world ''/w/old'' None False =
     (Inr [], \<lparr>files = ex_fs,
               trace = [MakeDirs ''/w/old_webp'', ScanDir ''/w/old'', ScanDir ''/w/old_webp'']\<rparr>)"
    by (simp add: ex_world_def ex_fs_def string_defs os_defs run_defs)
  from empty_work_list_returns_zero[OF h, of dup_enc] h show ?thesis by simp
qed

text \<open>
  Claim C6. When the size of a file of the work list has been read and its encoder
  run fails, the loop goes on with the rest of the list and with the same
  \<^verbatim>\<open>total_time\<close>, \<^verbatim>\<open>success_count\<close> and \<^verbatim>\<open>file_sizes\<close>; the store is the same, and
  the trace has grown by the size read of the source file and the encoder run
  only, so the size of the output has not been read.
\<close>

theorem failed_file_is_skipped:
  assumes "getsize w tiff_path = (Inr orig_size, w1)"
      and "fst (fst (convert_to_webp enc w1 tiff_path (output_path_of webp_dir tiff_path))) = False"
  shows "convert_loop enc webp_dir (tiff_path # rest) st w =
         convert_loop enc webp_dir rest st
           (w\<lparr>trace := trace w @ [GetSize tiff_path,
                                  RunEncoder tiff_path (output_path_of webp_dir tiff_path)]\<rparr>)"
proof -
  obtain tt sc fz where st: "st = (tt, sc, fz)" by (cases st) auto
  from assms(1) have w1: "w1 = record_event (GetSize tiff_path) w"
    using getsize_world[of w tiff_path] by simp
  let ?out = "output_path_of webp_dir tiff_path"
  from assms(2) have c: "convert_to_webp enc w1 tiff_path ?out =
      ((False, 0), record_event (RunEncoder tiff_path ?out) w1)"
    by (auto simp: convert_to_webp_def Let_def split: if_splits option.splits)
  show ?thesis
    unfolding st using assms(1) c w1 by (simp add: record_event_def)
qed

theorem failed_file_is_skipped_witness:
  "getsize dup_ready ''d/x.tif'' = (Inr 10, record_event (GetSize ''d/x.tif'') dup_ready) \<and>
   fst (fst (convert_to_webp picky_enc (record_event (GetSize ''d/x.tif'') dup_ready)
              ''d/x.tif'' (output_path_of ''d_webp'' ''d/x.tif''))) = False \<and>
   convert_loop picky_enc ''d_webp'' [''d/x.tif'', ''d/x.tiff''] (0, 0, []) dup_ready =
   convert_loop picky_enc ''d_webp'' [''d/x.tiff''] (0, 0, [])
     (dup_ready\<lparr>trace := trace dup_ready @
        [GetSize ''d/x.tif'', RunEncoder ''d/x.tif'' (output_path_of ''d_webp'' ''d/x.tif'')]\<rparr>) \<and>
   fst (convert_loop picky_enc ''d_webp'' [''d/x.tif'', ''d/x.tiff''] (0, 0, []) dup_ready) =
     Inr (2, 1, [(20, 7, 7 / 20)])"
proof -
  have g: "getsize dup_ready ''d/x.tif'' = (Inr 10, record_event (GetSize ''d/x.tif'') dup_ready)"
    by (simp add: dup_ready_def dup_fs_def os_defs)
  have c: "fst (fst (convert_to_webp picky_enc (record_event (GetSize ''d/x.tif'') dup_ready)
              ''d/x.tif'' (output_path_of ''d_webp'' ''d/x.tif''))) = False"
    by (simp add: dup_ready_def dup_fs_def picky_enc_def os_defs string_defs output_path_of_def)
  have r: "fst (convert_loop picky_enc ''d_webp'' [''d/x.tiff''] (0, 0, [])
     (dup_ready\<lparr>trace := trace dup_ready @
        [GetSize ''d/x.tif'', RunEncoder ''d/x.tif'' (output_path_of ''d_webp'' ''d/x.tif'')]\<rparr>)) =
     Inr (2, 1, [(20, 7, 7 / 20)])"
    by (simp add: dup_ready_def dup_fs_def picky_enc_def os_defs string_defs run_defs)
  from failed_file_is_skipped[OF g c, of "[''d/x.tiff'']" "(0, 0, [])"] g c r
  show ?thesis by simp
qed

text \<open>
  Claim C10. The two statistics of the report are defined for all totals: the
  average time per file is \<^verbatim>\<open>total_time / total_files\<close>, and 0 when no file was
  converted; the compression ratio is
  \<^verbatim>\<open>total_compressed_size / total_orig_size\<close>, and 0 when the original size is 0.
  Neither division raises.
\<close>

theorem summary_total:
  "summary t =
     Inr (if total_files t = 0 then 0 else total_time t / real (total_files t),
          if total_orig_size t = 0 then 0
          else real (total_compressed_size t) / real (total_orig_size t))"
  by (simp add: summary_def true_div_def)

theorem summary_total_witness:
  "summary \<lparr>total_files = 0, total_time = 0, total_orig_size = 0, total_compressed_size = 0\<rparr>
     = Inr (0, 0) \<and>
   summary \<lparr>total_files = 2, total_time = 3, total_orig_size = 3000, total_compressed_size = 1500\<rparr>
     = Inr (3 / 2, 1 / 2)"
  using summary_total[of "\<lparr>total_files = 0, total_time = 0, total_orig_size = 0,
                            total_compressed_size = 0\<rparr>"]
        summary_total[of "\<lparr>total_files = 2, total_time = 3, total_orig_size = 3000,
                            total_compressed_size = 1500\<rparr>"]
  by simp

section \<open>Finding the directories\<close>

lemma scan_for_tiff_eq:
  "scan_for_tiff fs ents =
     (list_ex (\<lambda>e. is_file fs e \<and> is_tiff_name (name e)) ents,
      if list_ex (\<lambda>e. is_file fs e \<and> is_tiff_name (name e)) ents
      then Suc (length (takeWhile (\<lambda>e. \<not> (is_file fs e \<and> is_tiff_name (name e))) ents))
      else length ents)"
  by (induction ents) auto

lemma scan_for_tiff_children:
  "fst (scan_for_tiff fs (map (\<lambda>n. \<lparr>name = n, path = join d n\<rparr>) cs)) = list_ex (tiff_child fs d) cs"
  by (simp add: scan_for_tiff_eq list_ex_iff tiff_child_def is_file_def)

lemma find_tiff_dirs_loop_eq:
  "find_tiff_dirs_loop (map (\<lambda>n. \<lparr>name = n, path = join r n\<rparr>) ns) acc w =
     (Inr (acc @ map (join r)
             (filter (\<lambda>n. isdir (files w) (join r n) \<and> has_tiff_child (files w) (join r n)) ns)),
      w\<lparr>trace := trace w @ map (\<lambda>n. ScanDir (join r n))
                            (filter (\<lambda>n. isdir (files w) (join r n)) ns)\<rparr>)"
proof (induction ns arbitrary: acc w)
  case Nil
  then show ?case by simp
next
  case (Cons n ns)
  show ?case
  proof (cases "isdir (files w) (join r n)")
    case False
    then show ?thesis using Cons.IH[of acc w] by (simp add: is_dir_def)
  next
    case True
    then obtain cs where cs: "files w (join r n) = Some (Dir cs)"
      by (auto simp: isdir_def split: option.splits node.splits)
    let ?w' = "record_event (ScanDir (join r n)) w"
    have s: "scandir w (join r n) =
               (Inr (map (\<lambda>c. \<lparr>name = c, path = join (join r n) c\<rparr>) cs), ?w')"
      using cs by (simp add: scandir_def)
    have h: "has_tiff_child (files w) (join r n) = list_ex (tiff_child (files w) (join r n)) cs"
      using cs by (simp add: has_tiff_child_def)
    have f: "files ?w' = files w" by (simp add: files_record_event)
    show ?thesis
      using True s h Cons.IH[of "acc @ [join r n]" ?w'] Cons.IH[of acc ?w']
      by (simp add: is_dir_def scan_for_tiff_children f record_event_def)
  qed
qed

text \<open>
  Claim C8. For a root directory, \<^verbatim>\<open>find_tiff_dirs\<close> returns the paths of exactly
  those of its entries that are directories with a TIFF child (a regular file whose
  lower-cased name ends with \<^verbatim>\<open>.tif\<close> or \<^verbatim>\<open>.tiff\<close>), in listing order. The store
  is unchanged and the only listings are those of the root and of its immediate
  subdirectories: nothing below them is read. The inner loop finds a TIFF file
  exactly when there is one, and then it has read the entries up to and including
  the first such file and no more (all entries when there is none).
\<close>

theorem find_tiff_dirs_one_level:
  assumes "files w root_path = Some (Dir ns)"
  shows "find_tiff_dirs w root_path =
           (Inr (map (join root_path)
                   (filter (\<lambda>n. isdir (files w) (join root_path n) \<and>
                                 has_tiff_child (files w) (join root_path n)) ns)),
            w\<lparr>trace := trace w @ ScanDir root_path #
                 map (\<lambda>n. ScanDir (join root_path n))
                   (filter (\<lambda>n. isdir (files w) (join root_path n)) ns)\<rparr>) \<and>
         scan_for_tiff fs ents =
           (list_ex (\<lambda>e. is_file fs e \<and> is_tiff_name (name e)) ents,
            if list_ex (\<lambda>e. is_file fs e \<and> is_tiff_name (name e)) ents
            then Suc (length (takeWhile (\<lambda>e. \<not> (is_file fs e \<and> is_tiff_name (name e))) ents))
            else length ents)"
proof -
  let ?w' = "record_event (ScanDir root_path) w"
  have s: "scandir w root_path =
             (Inr (map (\<lambda>n. \<lparr>name = n, path = join root_path n\<rparr>) ns), ?w')"
    using assms by (simp add: scandir_def)
  have f: "files ?w' = files w" by (simp add: files_record_event)
  show ?thesis
    using s find_tiff_dirs_loop_eq[of root_path ns "[]" ?w'] scan_for_tiff_eq[of fs ents]
    by (simp add: find_tiff_dirs_def f record_event_def)
qed

theorem find_tiff_dirs_one_level_witness:
  "files ex_world ''/w'' =
     Some (Dir [''in'', ''list.txt'', ''notes'', ''in_webp'', ''old'', ''old_webp'']) \<and>
   find_tiff_dirs ex_world ''/w'' =
     (Inr [''/w/in'', ''/w/old''],
      ex_world\<lparr>trace := [ScanDir ''/w'', ScanDir ''/w/in'', ScanDir ''/w/notes'',
                          ScanDir ''/w/in_webp'', ScanDir ''/w/old'', ScanDir ''/w/old_webp'']\<rparr>) \<and>
   scan_for_tiff ex_fs [\<lparr>name = ''a.tif'', path = ''/w/in/a.tif''\<rparr>,
                        \<lparr>name = ''B.TIFF'', path = ''/w/in/B.TIFF''\<rparr>,
                        \<lparr>name = ''n.txt'', path = ''/w/in/n.txt''\<rparr>] = (True, 1) \<and>
   scan_for_tiff ex_fs [\<lparr>name = ''n.txt'', path = ''/w/old/n.txt''\<rparr>,
                        \<lparr>name = ''c.tif'', path = ''/w/old/c.tif''\<rparr>] = (True, 2) \<and>
   scan_for_tiff ex_fs [\<lparr>name = ''r.txt'', path = ''/w/notes/r.txt''\<rparr>] = (False, 1)"
proof -
  have h: "files ex_world ''/w'' =
     Some (Dir [''in'', ''list.txt'', ''notes'', ''in_webp'', ''old'', ''old_webp''])"
    by (simp add: ex_world_def ex_fs_def)
  have e: "map (join ''/w'')
             (filter (\<lambda>n. isdir (files ex_world) (join ''/w'' n) \<and>
                           has_tiff_child (files ex_world) (join ''/w'' n))
                [''in'', ''list.txt'', ''notes'', ''in_webp'', ''old'', ''old_webp''])
           = [''/w/in'', ''/w/old'']"
    by (simp add: ex_world_def ex_fs_def has_tiff_child_def tiff_child_def string_defs os_defs)
  have t: "map (\<lambda>n. ScanDir (join ''/w'' n))
             (filter (\<lambda>n. isdir (files ex_world) (join ''/w'' n))
                [''in'', ''list.txt'', ''notes'', ''in_webp'', ''old'', ''old_webp''])
           = [ScanDir ''/w/in'', ScanDir ''/w/notes'', ScanDir ''/w/in_webp'',
              ScanDir ''/w/old'', ScanDir ''/w/old_webp'']"
    by (simp add: ex_world_def ex_fs_def string_defs os_defs)
  have tr: "trace ex_world = []" by (simp add: ex_world_def)
  have s1: "scan_for_tiff ex_fs [\<lparr>name = ''a.tif'', path = ''/w/in/a.tif''\<rparr>,
                        \<lparr>name = ''B.TIFF'', path = ''/w/in/B.TIFF''\<rparr>,
                        \<lparr>name = ''n.txt'', path = ''/w/in/n.txt''\<rparr>] = (True, 1)"
    by (simp add: ex_fs_def string_defs os_defs)
  have s2: "scan_for_tiff ex_fs [\<lparr>name = ''n.txt'', path = ''/w/old/n.txt''\<rparr>,
                        \<lparr>name = ''c.tif'', path = ''/w/old/c.tif''\<rparr>] = (True, 2)"
    by (simp add: ex_fs_def string_defs os_defs)
  have s3: "scan_for_tiff ex_fs [\<lparr>name = ''r.txt'', path = ''/w/notes/r.txt''\<rparr>] = (False, 1)"
    by (simp add: ex_fs_def string_defs os_defs)
  have m: "find_tiff_dirs ex_world ''/w'' =
     (Inr [''/w/in'', ''/w/old''],
      ex_world\<lparr>trace := [ScanDir ''/w'', ScanDir ''/w/in'', ScanDir ''/w/notes'',
                          ScanDir ''/w/in_webp'', ScanDir ''/w/old'', ScanDir ''/w/old_webp'']\<rparr>)"
    using find_tiff_dirs_one_level[OF h, THEN conjunct1] unfolding e t tr by simp
  show ?thesis using h m s1 s2 s3 by (intro conjI) assumption+
qed

section \<open>Facts about paths\<close>

lemma takeWhile_neq_append:
  "c \<notin> set xs \<Longrightarrow> takeWhile (\<lambda>x. x \<noteq> c) (xs @ ys) = xs @ takeWhile (\<lambda>x. x \<noteq> c) ys"
  by (induction xs) auto

lemma takeWhile_neq_all: "c \<notin> set xs \<Longrightarrow> takeWhile (\<lambda>x. x \<noteq> c) xs = xs"
  by (induction xs) auto

lemma dropWhile_neq_append:
  "c \<notin> set xs \<Longrightarrow> dropWhile (\<lambda>x. x \<noteq> c) (xs @ ys) = dropWhile (\<lambda>x. x \<noteq> c) ys"
  by (induction xs) auto

lemma basename_no_sep: "CHR ''/'' \<notin> set (basename p)"
  by (auto simp: basename_def dest: set_takeWhileD)

lemma basename_id: "CHR ''/'' \<notin> set b \<Longrightarrow> basename b = b"
  by (simp add: basename_def takeWhile_neq_all)

lemma basename_after_sep: "CHR ''/'' \<notin> set b \<Longrightarrow> basename (a @ CHR ''/'' # b) = b"
  by (simp add: basename_def takeWhile_neq_append)

lemma ends_with_sep_iff: "ends_with_sep a = (a \<noteq> [] \<and> last a = CHR ''/'')"
  by (cases a rule: rev_cases) (simp_all add: ends_with_sep_def)

lemma starts_with_sep_iff: "starts_with_sep b = (b \<noteq> [] \<and> hd b = CHR ''/'')"
  by (cases b) (simp_all add: starts_with_sep_def)

lemma no_sep_not_starts: "CHR ''/'' \<notin> set b \<Longrightarrow> \<not> starts_with_sep b"
  by (cases b) (auto simp: starts_with_sep_def)

lemma join_cases:
  assumes "CHR ''/'' \<notin> set b"
  shows "join a b = b \<or> (\<exists>a'. join a b = a' @ CHR ''/'' # b)"
proof (cases "a = []")
  case True
  then show ?thesis using assms by (simp add: join_def no_sep_not_starts)
next
  case False
  show ?thesis
  proof (cases "ends_with_sep a")
    case True
    then obtain a' where "a = a' @ [CHR ''/'']"
      by (cases a rule: rev_cases) (auto simp: ends_with_sep_def)
    then show ?thesis using assms True by (simp add: join_def no_sep_not_starts)
  next
    case False
    then show ?thesis using assms \<open>a \<noteq> []\<close> by (simp add: join_def no_sep_not_starts)
  qed
qed

lemma basename_join: "CHR ''/'' \<notin> set b \<Longrightarrow> basename (join a b) = b"
  using join_cases[of b a] by (auto simp: basename_id basename_after_sep)

lemma splitext_stem:
  assumes "CHR ''/'' \<notin> set s" "filter (\<lambda>c. c \<noteq> CHR ''.'') s \<noteq> []"
      and "CHR ''/'' \<notin> set e" "CHR ''.'' \<notin> set e"
  shows "splitext (s @ CHR ''.'' # e) = (s, CHR ''.'' # e)"
proof -
  let ?p = "s @ CHR ''.'' # e"
  have b: "basename ?p = ?p" using assms by (simp add: basename_id)
  have "takeWhile (\<lambda>c. c \<noteq> CHR ''.'') (rev e @ CHR ''.'' # rev s) = rev e"
    using assms(4) by (simp add: takeWhile_neq_append)
  then have x: "rev (takeWhile (\<lambda>c. c \<noteq> CHR ''.'') (rev ?p)) = e" by simp
  show ?thesis
    unfolding splitext_def b Let_def x using assms(2) by simp
qed


lemma fst_splitext_no_sep: "CHR ''/'' \<notin> set q \<Longrightarrow> CHR ''/'' \<notin> set (fst (splitext q))"
  by (auto simp: splitext_def Let_def dest: in_set_takeD)

lemma stem_has_char:
  assumes "CHR ''/'' \<notin> set q" "q \<noteq> []" "last q \<noteq> CHR ''.''"
  shows "filter (\<lambda>c. c \<noteq> CHR ''.'') (fst (splitext q)) \<noteq> []"
proof -
  have b: "basename q = q" using assms(1) by (rule basename_id)
  have "last q \<in> set q" using assms(2) by simp
  with assms(3) have "filter (\<lambda>c. c \<noteq> CHR ''.'') q \<noteq> []"
    by (auto simp: filter_empty_conv)
  then show ?thesis
    unfolding splitext_def b Let_def by simp
qed

lemma dirname_after_sep:
  assumes "CHR ''/'' \<notin> set n" "wd \<noteq> []" "last wd \<noteq> CHR ''/''"
  shows "dirname (wd @ CHR ''/'' # n) = wd"
proof -
  have d: "dropWhile (\<lambda>c. c \<noteq> CHR ''/'') (rev n @ CHR ''/'' # rev wd) = CHR ''/'' # rev wd"
    using assms(1) by (simp add: dropWhile_neq_append)
  have "last wd \<in> set wd" using assms(2) by simp
  with assms(3) have f: "filter (\<lambda>c. c \<noteq> CHR ''/'') wd \<noteq> []"
    by (auto simp: filter_empty_conv)
  have dw: "dropWhile (\<lambda>c. c = CHR ''/'') (rev wd) = rev wd"
    using assms(2,3) by (cases wd rule: rev_cases) auto
  show ?thesis
    unfolding dirname_def Let_def using d f dw by simp
qed

lemma last_join: "n \<noteq> [] \<Longrightarrow> last (join d n) = last n"
  by (simp add: join_def)

lemma join_not_Nil: "n \<noteq> [] \<Longrightarrow> join d n \<noteq> []"
  by (simp add: join_def)

lemma basename_last:
  assumes "p \<noteq> []" "last p \<noteq> CHR ''/''"
  shows "basename p \<noteq> [] \<and> last (basename p) = last p"
proof -
  obtain xs x where p: "p = xs @ [x]" using assms(1) by (cases p rule: rev_cases) auto
  with assms(2) show ?thesis by (simp add: basename_def)
qed

lemma join_good:
  assumes "CHR ''/'' \<notin> set n" "wd \<noteq> []" "last wd \<noteq> CHR ''/''"
  shows "join wd n = wd @ CHR ''/'' # n"
  using assms by (simp add: join_def no_sep_not_starts ends_with_sep_iff)

lemma destination_dir_join:
  "\<exists>x. destination_dir td out = join x (basename td @ ''_webp'')"
  by (auto simp: destination_dir_def Let_def split: option.splits)

lemma destination_dir_good:
  "destination_dir td out \<noteq> [] \<and> last (destination_dir td out) = CHR ''p'' \<and>
   basename (destination_dir td out) = basename td @ ''_webp''"
proof -
  obtain x where x: "destination_dir td out = join x (basename td @ ''_webp'')"
    using destination_dir_join by blast
  have n: "CHR ''/'' \<notin> set (basename td @ ''_webp'')" using basename_no_sep[of td] by simp
  show ?thesis unfolding x using basename_join[OF n, of x]
    by (simp add: last_join join_not_Nil)
qed

lemma destination_dir_neq: "destination_dir td out \<noteq> td"
proof
  assume "destination_dir td out = td"
  then have "basename td = basename td @ ''_webp''" using destination_dir_good[of td out] by simp
  then show False by simp
qed

lemma lower_append: "lower (a @ b) = lower a @ lower b"
  by (simp add: lower_def)

lemma is_webp_name_stem: "is_webp_name (s @ ''.webp'')"
proof -
  have "lower ''.webp'' = ''.webp''" by (simp add: lower_def lower_char_def)
  then show ?thesis by (simp add: is_webp_name_def endswith_def lower_append suffix_def)
qed

lemma suffix_last: "suffix xs ys \<Longrightarrow> xs \<noteq> [] \<Longrightarrow> ys \<noteq> [] \<and> last ys = last xs"
  by (auto simp: suffix_def)

lemma is_tiff_name_last:
  assumes "is_tiff_name n"
  shows "n \<noteq> [] \<and> last n \<noteq> CHR ''p'' \<and> last n \<noteq> CHR ''.'' \<and> last n \<noteq> CHR ''/''"
proof -
  from assms have "suffix ''.tif'' (lower n) \<or> suffix ''.tiff'' (lower n)"
    by (simp add: is_tiff_name_def endswith_any_def endswith_def)
  then have l: "lower n \<noteq> [] \<and> last (lower n) = CHR ''f''"
    using suffix_last[of "''.tif''" "lower n"] suffix_last[of "''.tiff''" "lower n"] by auto
  then have n: "n \<noteq> []" by (auto simp: lower_def)
  with l have c: "lower_char (last n) = CHR ''f''" by (simp add: lower_def last_map)
  have "lower_char (CHR ''p'') = CHR ''p''" "lower_char (CHR ''.'') = CHR ''.''"
       "lower_char (CHR ''/'') = CHR ''/''"
    by (simp_all add: lower_char_def)
  with c n show ?thesis by auto
qed

text \<open>Facts about the output path of a TIFF file in a destination directory.\<close>

lemma output_path_of_good:
  assumes "wd \<noteq> []" "last wd \<noteq> CHR ''/''"
  shows "output_path_of wd f = wd @ CHR ''/'' # fst (splitext (basename f)) @ ''.webp''"
    and "dirname (output_path_of wd f) = wd"
    and "basename (output_path_of wd f) = fst (splitext (basename f)) @ ''.webp''"
    and "output_path_of wd f \<noteq> []"
    and "last (output_path_of wd f) = CHR ''p''"
    and "output_path_of wd f \<noteq> wd"
proof -
  let ?n = "fst (splitext (basename f)) @ ''.webp''"
  have n: "CHR ''/'' \<notin> set ?n"
    using fst_splitext_no_sep[OF basename_no_sep[of f]] by simp
  have j: "output_path_of wd f = wd @ CHR ''/'' # ?n"
    using join_good[OF n assms] by (simp add: output_path_of_def)
  show "output_path_of wd f = wd @ CHR ''/'' # fst (splitext (basename f)) @ ''.webp''"
    by (rule j)
  show "dirname (output_path_of wd f) = wd"
    unfolding j by (rule dirname_after_sep[OF n assms])
  show "basename (output_path_of wd f) = fst (splitext (basename f)) @ ''.webp''"
    unfolding j by (rule basename_after_sep[OF n])
  show "output_path_of wd f \<noteq> []" unfolding j by simp
  show "last (output_path_of wd f) = CHR ''p''" unfolding j by simp
  show "output_path_of wd f \<noteq> wd" unfolding j by simp
qed

lemma tiff_stem_roundtrip:
  assumes "is_tiff_name n"
  shows "fst (splitext (fst (splitext (basename (join d n))) @ ''.webp'')) =
         fst (splitext (basename (join d n)))"
proof -
  let ?q = "basename (join d n)"
  from is_tiff_name_last[OF assms] have n: "n \<noteq> []" "last n \<noteq> CHR ''.''" "last n \<noteq> CHR ''/''"
    by simp_all
  then have "join d n \<noteq> []" "last (join d n) \<noteq> CHR ''/''"
    by (simp_all add: join_not_Nil last_join)
  from basename_last[OF this] n have q: "?q \<noteq> []" "last ?q \<noteq> CHR ''.''"
    by (simp_all add: last_join)
  have s: "CHR ''/'' \<notin> set ?q" by (rule basename_no_sep)
  have "splitext (fst (splitext ?q) @ CHR ''.'' # ''webp'') = (fst (splitext ?q), CHR ''.'' # ''webp'')"
    by (rule splitext_stem[OF fst_splitext_no_sep[OF s] stem_has_char[OF s q]]) simp_all
  then show ?thesis by simp
qed

section \<open>The conversion loop\<close>








section \<open>The driver\<close>











lemma foldl_accumulate:
  "foldl accumulate t rs =
     \<lparr>total_files = total_files t + total_files (sum_results rs),
      total_time = total_time t + total_time (sum_results rs),
      total_orig_size = total_orig_size t + total_orig_size (sum_results rs),
      total_compressed_size = total_compressed_size t + total_compressed_size (sum_results rs)\<rparr>"
proof (induction rs arbitrary: t)
  case Nil
  then show ?case by (simp add: sum_results_def)
next
  case (Cons r rs)
  obtain c tm ra og cp where r: "r = (c, tm, ra, og, cp)" by (cases r) auto
  show ?case unfolding foldl_Cons Cons.IH
    by (simp add: r accumulate_def sum_results_def)
qed

lemma foldl_accumulate_zero:
  "foldl accumulate \<lparr>total_files = 0, total_time = 0, total_orig_size = 0,
                      total_compressed_size = 0\<rparr> rs = sum_results rs"
  by (simp add: foldl_accumulate sum_results_def)

lemma process_listed_foldl:
  "process_listed enc out ds t w = (Inr t', w') \<Longrightarrow>
     t' = foldl accumulate t (results_listed enc out ds w)"
proof (induction ds arbitrary: t w)
  case Nil
  then show ?case by simp
next
  case (Cons d ds)
  show ?case
  proof (cases "isdir (files w) d")
    case False
    with Cons show ?thesis by simp
  next
    case True
    obtain r w1 where p: "process_directory enc w d out False = (r, w1)"
      by (cases "process_directory enc w d out False") auto
    show ?thesis
    proof (cases r)
      case (Inl e)
      with Cons.prems True p show ?thesis by simp
    next
      case (Inr x)
      with Cons.prems True p have "process_listed enc out ds (accumulate t x) w1 = (Inr t', w')"
        by simp
      from Cons.IH[OF this] True p Inr show ?thesis by simp
    qed
  qed
qed

lemma process_found_foldl:
  "process_found enc out ds t w = (Inr t', w') \<Longrightarrow>
     t' = foldl accumulate t (results_found enc out ds w)"
proof (induction ds arbitrary: t w)
  case Nil
  then show ?case by simp
next
  case (Cons d ds)
  obtain r w1 where p: "process_directory enc w d out False = (r, w1)"
    by (cases "process_directory enc w d out False") auto
  show ?case
  proof (cases r)
    case (Inl e)
    with Cons.prems p show ?thesis by simp
  next
    case (Inr x)
    with Cons.prems p have "process_found enc out ds (accumulate t x) w1 = (Inr t', w')"
      by simp
    from Cons.IH[OF this] p Inr show ?thesis by simp
  qed
qed

lemma run_scan_foldl:
  "run_scan enc out cwd t w = (Inr t', w') \<Longrightarrow>
     t' = foldl accumulate t (results_scan enc out cwd w)"
  by (auto simp: run_scan_def results_scan_def dest: process_found_foldl
           split: prod.splits sum.splits)

lemma run_target_foldl:
  assumes "run_target enc read_lines out tgt t w = (Inr t', w')"
  shows "t' = foldl accumulate t
           (if isdir (files w) tgt then
              (case process_directory enc w tgt out True of
                 (Inl e, w') \<Rightarrow> []
               | (Inr r, w') \<Rightarrow> [r])
            else if isfile (files w) tgt \<and> endswith tgt ''.txt'' then
              results_listed enc out (filter (\<lambda>l. l \<noteq> []) (map strip (read_lines tgt))) w
            else [])"
proof (cases "isdir (files w) tgt")
  case True
  with assms show ?thesis
    by (auto simp: run_target_def split: prod.splits sum.splits)
next
  case False
  with assms have c: "isfile (files w) tgt \<and> endswith tgt ''.txt''" and
    "process_listed enc out (filter (\<lambda>l. l \<noteq> []) (map strip (read_lines tgt))) t w
                   = (Inr t', w')"
    by (auto simp: run_target_def Let_def split: if_splits)
  from process_listed_foldl[OF this(2)] False c show ?thesis by simp
qed

text \<open>
  Claim C2. When \<^verbatim>\<open>main\<close> returns, its totals are the field-wise sums of count,
  time, original bytes and converted bytes over the results of all directories it
  has processed, and the compression ratio of the report is
  \<^verbatim>\<open>total_compressed_size / total_orig_size\<close> (0 when the original size is 0): a
  ratio of the byte totals, into which the mean ratios of the directories do not
  enter. Times and ratios are real numbers here; the rounding of floats is not
  modelled.
\<close>

theorem run_totals_are_sums:
  assumes "main enc read_lines cwd a w = (Inr (t, avg, ratio), w')"
  shows "t = sum_results (processed_results enc read_lines cwd a w) \<and>
         ratio = (if total_orig_size t = 0 then 0
                  else real (total_compressed_size t) / real (total_orig_size t))"
proof -
  let ?t0 = "\<lparr>total_files = 0, total_time = 0, total_orig_size = 0, total_compressed_size = 0\<rparr>"
  obtain r w1 where e: "ensure_output_dir w (output_dir a) = (r, w1)"
    by (cases "ensure_output_dir w (output_dir a)") auto
  from assms e obtain u where r: "r = Inr u"
    by (cases r) (auto simp: main_def)
  let ?mode = "case target a of
                 Some tgt \<Rightarrow>
                   if tgt \<noteq> [] then run_target enc read_lines (output_dir a) tgt ?t0 w1
                   else run_scan enc (output_dir a) cwd ?t0 w1
               | None \<Rightarrow> run_scan enc (output_dir a) cwd ?t0 w1"
  obtain m w2 where md: "?mode = (m, w2)" by (cases ?mode) auto
  from assms e r md have m: "m = Inr t" and s: "summary t = Inr (avg, ratio)"
    by (auto simp: main_def Let_def split: sum.splits prod.splits)
  have "t = foldl accumulate ?t0 (processed_results enc read_lines cwd a w)"
  proof (cases "target a")
    case None
    with md m have "run_scan enc (output_dir a) cwd ?t0 w1 = (Inr t, w2)" by simp
    from run_scan_foldl[OF this] None e show ?thesis by (simp add: processed_results_def)
  next
    case (Some tgt)
    show ?thesis
    proof (cases "tgt = []")
      case True
      with Some md m have "run_scan enc (output_dir a) cwd ?t0 w1 = (Inr t, w2)" by simp
      from run_scan_foldl[OF this] Some True e show ?thesis by (simp add: processed_results_def)
    next
      case False
      with Some md m have "run_target enc read_lines (output_dir a) tgt ?t0 w1 = (Inr t, w2)"
        by simp
      from run_target_foldl[OF this] Some False e show ?thesis
        by (simp add: processed_results_def)
    qed
  qed
  then have "t = sum_results (processed_results enc read_lines cwd a w)"
    by (simp only: foldl_accumulate_zero)
  moreover from s have "ratio = (if total_orig_size t = 0 then 0
                  else real (total_compressed_size t) / real (total_orig_size t))"
    by (simp add: summary_def true_div_def split: if_splits)
  ultimately show ?thesis by simp
qed


theorem run_totals_are_sums_witness:
  "fst (main two_enc two_lines [] \<lparr>target = Some ''l.txt'', output_dir = None\<rparr> two_world) =
     Inr (\<lparr>total_files = 2, total_time = 4, total_orig_size = 2100,
            total_compressed_size = 580\<rparr>, 2, 29 / 105) \<and>
   processed_results two_enc two_lines [] \<lparr>target = Some ''l.txt'', output_dir = None\<rparr> two_world =
     [(1, 1, 4 / 5, 100, 80), (1, 3, 1 / 4, 2000, 500)] \<and>
   sum_results [(1, 1, 4 / 5, 100, 80), (1, 3, 1 / 4, 2000, 500)] =
     \<lparr>total_files = 2, total_time = 4, total_orig_size = 2100, total_compressed_size = 580\<rparr> \<and>
   mean_of_ratios [(1, 1, 4 / 5, 100, 80), (1, 3, 1 / 4, 2000, 500)] = 21 / 40 \<and>
   (29 / 105 :: real) \<noteq> 21 / 40"
proof -
  let ?a = "\<lparr>target = Some ''l.txt'', output_dir = None\<rparr>"
  let ?m = "main two_enc two_lines [] ?a two_world"
  let ?t = "\<lparr>total_files = 2, total_time = 4, total_orig_size = 2100,
             total_compressed_size = 580\<rparr>"
  have f: "fst ?m = Inr (?t, 2, 29 / 105)"
    by (simp add: two_world_def two_fs_def two_enc_def two_lines_def os_defs string_defs run_defs)
  then have h: "?m = (Inr (?t, 2, 29 / 105), snd ?m)" by (simp add: prod_eq_iff)
  have p: "processed_results two_enc two_lines [] ?a two_world =
     [(1, 1, 4 / 5, 100, 80), (1, 3, 1 / 4, 2000, 500)]"
    by (simp add: processed_results_def two_world_def two_fs_def two_enc_def two_lines_def
          os_defs string_defs run_defs)
  from run_totals_are_sums[OF h] p
  have s: "sum_results [(1, 1, 4 / 5, 100, 80), (1, 3, 1 / 4, 2000, 500)] = ?t" by simp
  have mr: "mean_of_ratios [(1, 1, 4 / 5, 100, 80), (1, 3, 1 / 4, 2000, 500)] = 21 / 40"
    by (simp add: mean_of_ratios_def)
  have n: "(29 / 105 :: real) \<noteq> 21 / 40" by simp
  show ?thesis using f p s mr n by (intro conjI) assumption+
qed

section \<open>Running a directory twice\<close>

lemma grows_refl: "grows wd fs fs"
  by (simp add: grows_def)

lemma growsD:
  assumes "grows wd a b"
  shows "q = [] \<or> last q \<noteq> CHR ''p'' \<Longrightarrow> b q = a q"
    and "q \<noteq> wd \<Longrightarrow> a q = Some (Dir ns) \<Longrightarrow> b q = Some (Dir ns)"
    and "isfile a q \<Longrightarrow> isfile b q"
    and "a wd = Some (Dir ns) \<Longrightarrow> \<exists>ns'. b wd = Some (Dir ns') \<and> set ns \<subseteq> set ns'"
proof -
  from assms have 1: "\<forall>q. (q = [] \<or> last q \<noteq> CHR ''p'') \<longrightarrow> b q = a q"
    and 2: "\<forall>q ns. q \<noteq> wd \<and> a q = Some (Dir ns) \<longrightarrow> b q = Some (Dir ns)"
    and 3: "\<forall>q. isfile a q \<longrightarrow> isfile b q"
    and 4: "\<forall>ns. a wd = Some (Dir ns) \<longrightarrow> (\<exists>ns'. b wd = Some (Dir ns') \<and> set ns \<subseteq> set ns')"
    unfolding grows_def by (rule conjunct1, rule conjunct2[THEN conjunct1],
      rule conjunct2[THEN conjunct2, THEN conjunct1], rule conjunct2[THEN conjunct2, THEN conjunct2])
  show "q = [] \<or> last q \<noteq> CHR ''p'' \<Longrightarrow> b q = a q" using 1 by (rule allE) (erule mp)
  show "q \<noteq> wd \<Longrightarrow> a q = Some (Dir ns) \<Longrightarrow> b q = Some (Dir ns)" using 2 by blast
  show "isfile a q \<Longrightarrow> isfile b q" using 3 by blast
  show "a wd = Some (Dir ns) \<Longrightarrow> \<exists>ns'. b wd = Some (Dir ns') \<and> set ns \<subseteq> set ns'"
    using 4 by blast
qed

lemma grows_trans:
  assumes "grows wd a b" "grows wd b c"
  shows "grows wd a c"
  unfolding grows_def
proof (intro conjI allI impI)
  fix q assume q: "q = [] \<or> last q \<noteq> CHR ''p''"
  from growsD(1)[OF assms(1) q] growsD(1)[OF assms(2) q] show "c q = a q" by simp
next
  fix q ns assume "q \<noteq> wd \<and> a q = Some (Dir ns)"
  then have q: "q \<noteq> wd" "a q = Some (Dir ns)" by simp_all
  from growsD(2)[OF assms(2) q(1) growsD(2)[OF assms(1) q]] show "c q = Some (Dir ns)" .
next
  fix q assume "isfile a q"
  from growsD(3)[OF assms(2) growsD(3)[OF assms(1) this]] show "isfile c q" .
next
  fix ns assume "a wd = Some (Dir ns)"
  from growsD(4)[OF assms(1) this] obtain ns' where 1: "b wd = Some (Dir ns')" "set ns \<subseteq> set ns'"
    by blast
  from growsD(4)[OF assms(2) 1(1)] obtain ns'' where 2: "c wd = Some (Dir ns'')" "set ns' \<subseteq> set ns''"
    by blast
  from 1 2 show "\<exists>ns'. c wd = Some (Dir ns') \<and> set ns \<subseteq> set ns'" by blast
qed

lemma write_file_at: "write_file fs p sz p = Some (File sz)"
  by (simp add: write_file_def)

lemma write_file_other:
  "q \<noteq> p \<Longrightarrow> q \<noteq> dirname p \<Longrightarrow> write_file fs p sz q = fs q"
  by (simp add: write_file_def add_child_def split: option.splits node.splits)

lemma write_file_parent:
  assumes "dirname p \<noteq> p"
  shows "write_file fs p sz (dirname p) =
           (case fs (dirname p) of
              Some (Dir ns) \<Rightarrow> Some (Dir (if basename p \<in> set ns then ns else ns @ [basename p]))
            | x \<Rightarrow> x)"
  using assms by (simp add: write_file_def add_child_def split: option.splits node.splits)

lemma grows_write_file:
  assumes d: "dirname p = wd" and pw: "p \<noteq> wd" and p: "p \<noteq> []" "last p = CHR ''p''"
      and w: "wd \<noteq> []" "last wd = CHR ''p''" and nd: "\<not> isdir fs p"
  shows "grows wd fs (write_file fs p sz)"
  unfolding grows_def
proof (intro conjI allI impI)
  fix q assume "q = [] \<or> last q \<noteq> CHR ''p''"
  with p w have "q \<noteq> p" "q \<noteq> dirname p" using d by auto
  then show "write_file fs p sz q = fs q" by (rule write_file_other)
next
  fix q ns assume a: "q \<noteq> wd \<and> fs q = Some (Dir ns)"
  with nd have "q \<noteq> p" by (auto simp: isdir_def)
  with a d show "write_file fs p sz q = Some (Dir ns)" by (simp add: write_file_other)
next
  fix q assume a: "isfile fs q"
  show "isfile (write_file fs p sz) q"
  proof (cases "q = p")
    case True
    then show ?thesis by (simp add: isfile_def write_file_at)
  next
    case False
    show ?thesis
    proof (cases "q = wd")
      case True
      with a pw d show ?thesis
        using write_file_parent[of p fs sz]
        by (auto simp: isfile_def split: option.splits node.splits)
    next
      case False
      with \<open>q \<noteq> p\<close> d a show ?thesis by (simp add: isfile_def write_file_other)
    qed
  qed
next
  fix ns assume "fs wd = Some (Dir ns)"
  with pw d show "\<exists>ns'. write_file fs p sz wd = Some (Dir ns') \<and> set ns \<subseteq> set ns'"
    using write_file_parent[of p fs sz] by auto
qed

lemma write_file_listed:
  assumes "dirname p = wd" "p \<noteq> wd" "fs wd = Some (Dir ns)"
  shows "\<exists>ns'. write_file fs p sz wd = Some (Dir ns') \<and> basename p \<in> set ns'"
  using assms write_file_parent[of p fs sz] by auto

lemma convert_to_webp_cases:
  assumes "convert_to_webp enc w i out = ((ok, el), w')"
  shows "(\<not> ok \<and> files w' = files w) \<or>
         (ok \<and> \<not> isdir (files w) out \<and> (\<exists>sz. files w' = write_file (files w) out sz))"
  using assms
  by (auto simp: convert_to_webp_def Let_def record_event_def split: if_splits option.splits)

lemma convert_loop_invariant:
  assumes "wd \<noteq> []" "last wd = CHR ''p''"
  shows "convert_loop enc wd ps (tt, sc, fz) w = (Inr (tt', sc', fz'), w') \<Longrightarrow>
         files w wd = Some (Dir ns0) \<Longrightarrow>
         grows wd (files w) (files w') \<and> sc' \<le> sc + length ps \<and>
         (sc' = sc + length ps \<longrightarrow>
            (\<forall>f \<in> set ps. isfile (files w') (output_path_of wd f) \<and>
               (\<exists>ns'. files w' wd = Some (Dir ns') \<and>
                      fst (splitext (basename f)) @ ''.webp'' \<in> set ns')))"
proof (induction ps arbitrary: tt sc fz w ns0)
  case Nil
  then show ?case by (simp add: grows_refl)
next
  case (Cons f ps)
  let ?out = "output_path_of wd f"
  have wd': "last wd \<noteq> CHR ''/''" using assms(2) by simp
  note og = output_path_of_good[OF assms(1) wd', of f]
  from Cons.prems(1) obtain sz where g: "getsize w f = (Inr sz, record_event (GetSize f) w)"
    using getsize_world[of w f] by (auto simp: Let_def split: prod.splits sum.splits)
  let ?w1 = "record_event (GetSize f) w"
  have f1: "files ?w1 = files w" by (simp add: files_record_event)
  obtain ok el w2 where c: "convert_to_webp enc ?w1 f ?out = ((ok, el), w2)"
    by (metis prod.exhaust)
  show ?case
  proof (cases ok)
    case False
    with convert_to_webp_cases[OF c] f1 have f2: "files w2 = files w" by simp
    from Cons.prems(1) g c False
    have l: "convert_loop enc wd ps (tt, sc, fz) w2 = (Inr (tt', sc', fz'), w')"
      by (simp add: Let_def)
    from Cons.IH[OF l] Cons.prems(2) f2
    have "grows wd (files w) (files w')" "sc' \<le> sc + length ps" by simp_all
    then show ?thesis by simp
  next
    case True
    with convert_to_webp_cases[OF c] f1 obtain nz where
      nd: "\<not> isdir (files w) ?out" and f2: "files w2 = write_file (files w) ?out nz" by auto
    have gw: "grows wd (files w) (files w2)"
      unfolding f2 by (rule grows_write_file[OF og(2) og(6) og(4) og(5) assms nd])
    have fo: "isfile (files w2) ?out" unfolding f2 by (simp add: isfile_def write_file_at)
    from write_file_listed[of ?out wd "files w" ns0 nz, OF og(2) og(6) Cons.prems(2)]
    obtain ns1 where n1: "files w2 wd = Some (Dir ns1)"
       "fst (splitext (basename f)) @ ''.webp'' \<in> set ns1"
      unfolding f2 og(3) by auto
    let ?w3 = "record_event (GetSize ?out) w2"
    have f3: "files ?w3 = files w2" by (simp add: files_record_event)
    from Cons.prems(1) g c True obtain nsz r where
      l: "convert_loop enc wd ps (tt + el, sc + 1, fz @ [(sz, nsz, r)]) ?w3 = (Inr (tt', sc', fz'), w')"
      using getsize_world[of w2 ?out]
      by (auto simp: Let_def split: prod.splits sum.splits)
    from n1(1) f3 have d3: "files ?w3 wd = Some (Dir ns1)" by simp
    note ih = Cons.IH[OF l d3]
    from ih have g3: "grows wd (files w2) (files w')" by (simp add: f3)
    have g: "grows wd (files w) (files w')" by (rule grows_trans[OF gw g3])
    have le: "sc' \<le> sc + length (f # ps)" using ih by simp
    have "\<forall>f' \<in> set (f # ps). isfile (files w') (output_path_of wd f') \<and>
               (\<exists>ns'. files w' wd = Some (Dir ns') \<and>
                      fst (splitext (basename f')) @ ''.webp'' \<in> set ns')"
      if eq: "sc' = sc + length (f # ps)"
    proof -
      from eq have "sc' = sc + 1 + length ps" by simp
      with ih have rest: "\<forall>f' \<in> set ps. isfile (files w') (output_path_of wd f') \<and>
               (\<exists>ns'. files w' wd = Some (Dir ns') \<and>
                      fst (splitext (basename f')) @ ''.webp'' \<in> set ns')" by simp
      from growsD(3)[OF g3 fo] have a: "isfile (files w') ?out" .
      from growsD(4)[OF g3 n1(1)] n1(2)
      have b: "\<exists>ns'. files w' wd = Some (Dir ns') \<and>
                      fst (splitext (basename f)) @ ''.webp'' \<in> set ns'" by blast
      from a b rest show ?thesis by simp
    qed
    with g le show ?thesis by blast
  qed
qed

lemma makedirs_existing:
  "files w p = Some (Dir ns) \<Longrightarrow> makedirs w p = (Inr (), record_event (MakeDirs p) w)"
  by (simp add: makedirs_def)

lemma makedirs_Inr_dir:
  "makedirs w p = (Inr u, w') \<Longrightarrow> \<exists>ns. files w' p = Some (Dir ns)"
  by (auto simp: makedirs_def files_record_event split: option.splits node.splits if_splits)

lemma scandir_dir:
  "files w d = Some (Dir ns) \<Longrightarrow>
     scandir w d = (Inr (map (\<lambda>n. \<lparr>name = n, path = join d n\<rparr>) ns), record_event (ScanDir d) w)"
  by (simp add: scandir_def)

lemma list_tiff_files_dir:
  assumes "files w d = Some (Dir ns)"
  shows "list_tiff_files w d = (Inr (tiff_paths (files w) d), record_event (ScanDir d) w)"
proof -
  obtain r w' where l: "list_tiff_files w d = (r, w')" by (cases "list_tiff_files w d") auto
  with scandir_dir[OF assms] obtain ps where "r = Inr ps"
    by (auto simp: list_tiff_files_def)
  with l list_tiff_files_Inr[of w d ps w'] show ?thesis by simp
qed

lemma list_tiff_files_Inr_dir:
  "list_tiff_files w d = (Inr ps, w') \<Longrightarrow> \<exists>ns. files w d = Some (Dir ns)"
  by (auto simp: list_tiff_files_def scandir_def split: option.splits node.splits)

lemma files_to_convert_dir:
  assumes "files w wd = Some (Dir ns)"
  shows "files_to_convert w wd ps False =
           (Inr (filter (\<lambda>f. \<not> has_exact_match (files w) wd f) ps), record_event (ScanDir wd) w)"
proof -
  obtain r w' where l: "files_to_convert w wd ps False = (r, w')"
    by (cases "files_to_convert w wd ps False") auto
  with scandir_dir[OF assms] obtain todo where r: "r = Inr todo" "w' = record_event (ScanDir wd) w"
    by (auto simp: files_to_convert_def)
  with l files_to_convert_Inr[of w wd ps todo w'] show ?thesis by simp
qed

lemma tiff_paths_grows:
  assumes g: "grows wd a b" and ne: "td \<noteq> wd" and d: "a td = Some (Dir ns)"
  shows "tiff_paths b td = tiff_paths a td"
proof -
  from growsD(2)[OF g ne d] have d': "b td = Some (Dir ns)" .
  have "(isfile b (join td n) \<and> is_tiff_name n) = (isfile a (join td n) \<and> is_tiff_name n)" for n
  proof (cases "is_tiff_name n")
    case False
    then show ?thesis by simp
  next
    case True
    from is_tiff_name_last[OF True] have "last (join td n) \<noteq> CHR ''p''"
      by (simp add: last_join)
    then have "b (join td n) = a (join td n)" using growsD(1)[OF g] by blast
    then show ?thesis by (simp add: isfile_def)
  qed
  then show ?thesis by (simp add: tiff_paths_def d d')
qed

lemma tiff_paths_form:
  "f \<in> set (tiff_paths fs td) \<Longrightarrow> \<exists>n. f = join td n \<and> is_tiff_name n"
  by (auto simp: tiff_paths_def split: option.splits node.splits)

lemma has_exact_match_grows:
  assumes g: "grows wd a b" and m: "has_exact_match a wd f"
  shows "has_exact_match b wd f"
proof -
  from m obtain ns where a: "a wd = Some (Dir ns)"
    by (auto simp: has_exact_match_def split: option.splits node.splits)
  with m obtain n where n: "n \<in> set ns" "isfile a (join wd n)" "is_webp_name n"
      "fst (splitext n) = fst (splitext (basename f))"
    by (auto simp: has_exact_match_def list_ex_iff)
  from growsD(4)[OF g a] obtain ns' where b: "b wd = Some (Dir ns')" "set ns \<subseteq> set ns'" by blast
  from growsD(3)[OF g n(2)] have "isfile b (join wd n)" .
  with n b show ?thesis by (auto simp: has_exact_match_def list_ex_iff)
qed

lemma has_exact_match_new:
  assumes t: "is_tiff_name n"
      and o: "isfile b (output_path_of wd (join td n))"
      and l: "b wd = Some (Dir ns')"
             "fst (splitext (basename (join td n))) @ ''.webp'' \<in> set ns'"
  shows "has_exact_match b wd (join td n)"
proof -
  let ?m = "fst (splitext (basename (join td n))) @ ''.webp''"
  have 1: "isfile b (join wd ?m)" using o by (simp add: output_path_of_def)
  have 2: "is_webp_name ?m" by (rule is_webp_name_stem)
  have 3: "fst (splitext ?m) = fst (splitext (basename (join td n)))"
    by (rule tiff_stem_roundtrip[OF t])
  from 1 2 3 l show ?thesis by (auto simp: has_exact_match_def list_ex_iff)
qed

lemma fst_directory_stats: "fst (directory_stats (tt, sc, fz)) = sc"
  by (simp add: directory_stats_def)

text \<open>
  Claim C3. Let a directory be processed without \<^verbatim>\<open>force_convert\<close>, and let the
  run return with as many successful conversions as its work list had files. When
  the directory is processed again in the world this run has left, the work list
  is empty and the result is five zeros; the second run creates nothing, lists the
  two directories and runs no encoder, so the store stays as it is.
\<close>

theorem second_run_converts_nothing:
  assumes wl: "work_list w tiff_dir output_root False = (Inr todo, wA)"
      and pd: "process_directory enc w tiff_dir output_root False = (Inr r1, wB)"
      and ok: "fst r1 = length todo"
  shows "work_list wB tiff_dir output_root False =
           (Inr [], wB\<lparr>trace := trace wB @
                      [MakeDirs (destination_dir tiff_dir output_root), ScanDir tiff_dir,
                       ScanDir (destination_dir tiff_dir output_root)]\<rparr>) \<and>
         process_directory enc wB tiff_dir output_root False =
           (Inr (0, 0, 0, 0, 0),
            wB\<lparr>trace := trace wB @
                      [MakeDirs (destination_dir tiff_dir output_root), ScanDir tiff_dir,
                       ScanDir (destination_dir tiff_dir output_root)]\<rparr>)"
proof -
  let ?wd = "destination_dir tiff_dir output_root"
  let ?F1 = "files wA" and ?F2 = "files wB"
  from destination_dir_good[of tiff_dir output_root]
  have wd: "?wd \<noteq> []" "last ?wd = CHR ''p''" by simp_all
  have ne: "tiff_dir \<noteq> ?wd" using destination_dir_neq[of tiff_dir output_root] by simp
  from work_list_Inr[OF wl] obtain u w1 w2 where
    m: "makedirs w ?wd = (Inr u, w1)" and
    lt: "list_tiff_files w1 tiff_dir = (Inr (tiff_paths (files w1) tiff_dir), w2)" and
    w2: "w2 = record_event (ScanDir tiff_dir) w1" and
    ftc: "files_to_convert w2 ?wd (tiff_paths (files w1) tiff_dir) False = (Inr todo, wA)"
    by blast
  from files_to_convert_trace[OF ftc] w2 have fA: "files w1 = ?F1" "files w2 = ?F1"
    by (simp_all add: files_record_event)
  from makedirs_Inr_dir[OF m] fA obtain nsW where dW: "?F1 ?wd = Some (Dir nsW)" by auto
  from list_tiff_files_Inr_dir[OF lt] fA obtain nsT where dT: "?F1 tiff_dir = Some (Dir nsT)"
    by auto
  from files_to_convert_Inr[OF ftc] fA
  have todo: "todo = filter (\<lambda>f. \<not> has_exact_match ?F1 ?wd f) (tiff_paths ?F1 tiff_dir)"
    by simp
  have run1: "grows ?wd ?F1 ?F2 \<and>
        (\<forall>f \<in> set todo. isfile ?F2 (output_path_of ?wd f) \<and>
           (\<exists>ns'. ?F2 ?wd = Some (Dir ns') \<and> fst (splitext (basename f)) @ ''.webp'' \<in> set ns'))"
  proof (cases "todo = []")
    case True
    with pd wl have "wB = wA" by (simp add: process_directory_def)
    with True show ?thesis by (simp add: grows_refl)
  next
    case False
    with pd wl obtain st where
      l: "convert_loop enc ?wd todo (0, 0, []) wA = (Inr st, wB)" and r: "r1 = directory_stats st"
      by (auto simp: process_directory_def split: prod.splits sum.splits)
    obtain tt sc fz where st: "st = (tt, sc, fz)" by (cases st) auto
    from ok r st have sc: "sc = 0 + length todo" by (simp add: fst_directory_stats)
    from convert_loop_invariant[OF wd l[unfolded st] dW] sc show ?thesis by blast
  qed
  then have g: "grows ?wd ?F1 ?F2" by simp
  from growsD(4)[OF g dW] obtain ns2 where dW2: "?F2 ?wd = Some (Dir ns2)" by blast
  from growsD(2)[OF g ne dT] have dT2: "?F2 tiff_dir = Some (Dir nsT)" .
  have tp: "tiff_paths ?F2 tiff_dir = tiff_paths ?F1 tiff_dir"
    by (rule tiff_paths_grows[OF g ne dT])
  have all: "has_exact_match ?F2 ?wd f" if f: "f \<in> set (tiff_paths ?F1 tiff_dir)" for f
  proof (cases "has_exact_match ?F1 ?wd f")
    case True
    then show ?thesis by (rule has_exact_match_grows[OF g])
  next
    case False
    with f todo have ft: "f \<in> set todo" by simp
    from tiff_paths_form[OF f] obtain n where n: "f = join tiff_dir n" "is_tiff_name n" by blast
    from run1 ft obtain ns' where
      "isfile ?F2 (output_path_of ?wd f)" "?F2 ?wd = Some (Dir ns')"
      "fst (splitext (basename f)) @ ''.webp'' \<in> set ns'" by blast
    then show ?thesis unfolding n(1) by (intro has_exact_match_new[OF n(2)])
  qed
  then have empty: "filter (\<lambda>f. \<not> has_exact_match ?F2 ?wd f) (tiff_paths ?F2 tiff_dir) = []"
    unfolding tp by (simp add: filter_empty_conv)
  let ?v1 = "record_event (MakeDirs ?wd) wB"
  let ?v2 = "record_event (ScanDir tiff_dir) ?v1"
  let ?v3 = "record_event (ScanDir ?wd) ?v2"
  have s1: "makedirs wB ?wd = (Inr (), ?v1)" by (rule makedirs_existing[OF dW2])
  have s2: "list_tiff_files ?v1 tiff_dir = (Inr (tiff_paths ?F2 tiff_dir), ?v2)"
    using list_tiff_files_dir[of ?v1 tiff_dir nsT] dT2 by (simp add: files_record_event)
  have s3: "files_to_convert ?v2 ?wd (tiff_paths ?F2 tiff_dir) False = (Inr [], ?v3)"
    using files_to_convert_dir[of ?v2 ?wd ns2 "tiff_paths ?F2 tiff_dir"] dW2 empty
    by (simp add: files_record_event)
  have v3: "?v3 = wB\<lparr>trace := trace wB @ [MakeDirs ?wd, ScanDir tiff_dir, ScanDir ?wd]\<rparr>"
    by (simp add: record_event_def)
  have wl2: "work_list wB tiff_dir output_root False = (Inr [], ?v3)"
    using s1 s2 s3 by (simp add: work_list_def Let_def)
  then have "process_directory enc wB tiff_dir output_root False = (Inr (0, 0, 0, 0, 0), ?v3)"
    by (simp add: process_directory_def)
  with wl2 show ?thesis unfolding v3 by simp
qed


theorem second_run_converts_nothing_witness:
  "fst (work_list dup_world ''d'' None False) = Inr [''d/x.tif'', ''d/x.tiff''] \<and>
   fst (process_directory dup_enc dup_world ''d'' None False) = Inr (2, 3, 17 / 40, 30, 12) \<and>
   fst (process_directory dup_enc (snd (process_directory dup_enc dup_world ''d'' None False))
          ''d'' None False) = Inr (0, 0, 0, 0, 0) \<and>
   fst (work_list (snd (process_directory dup_enc dup_world ''d'' None False)) ''d'' None False)
     = Inr [] \<and>
   files (snd (process_directory dup_enc
                 (snd (process_directory dup_enc dup_world ''d'' None False)) ''d'' None False)) =
   files (snd (process_directory dup_enc dup_world ''d'' None False))"
proof -
  let ?p = "process_directory dup_enc dup_world ''d'' None False"
  let ?l = "work_list dup_world ''d'' None False"
  have a: "fst ?l = Inr [''d/x.tif'', ''d/x.tiff'']"
    by (simp add: dup_world_def dup_fs_def os_defs string_defs run_defs)
  have b: "fst ?p = Inr (2, 3, 17 / 40, 30, 12)"
    by (simp add: dup_world_def dup_fs_def dup_enc_def os_defs string_defs run_defs)
  from a have wl: "?l = (Inr [''d/x.tif'', ''d/x.tiff''], snd ?l)" by (simp add: prod_eq_iff)
  from b have pd: "?p = (Inr (2, 3, 17 / 40, 30, 12), snd ?p)" by (simp add: prod_eq_iff)
  have ok: "fst (2 :: nat, 3 :: real, 17 / 40 :: real, 30 :: nat, 12 :: nat)
              = length [''d/x.tif'', ''d/x.tiff'']" by simp
  note T = second_run_converts_nothing[OF wl pd ok]
  from T have c: "fst (process_directory dup_enc (snd ?p) ''d'' None False) = Inr (0, 0, 0, 0, 0)"
    by simp
  from T have d: "fst (work_list (snd ?p) ''d'' None False) = Inr []" by simp
  from T have e: "files (snd (process_directory dup_enc (snd ?p) ''d'' None False)) = files (snd ?p)"
    by simp
  show ?thesis using a b c d e by (intro conjI) assumption+
qed


end
